theory Spec2Isabelle
  imports Main
begin

section \<open>Values, errors and the state of one query\<close>

text \<open>
  JavaScript values as far as the processor and its handlers look at them. An object the
  caller shares by reference (the context value) is a \<open>VRef\<close> into the heap of the state.
  \<open>VFunction\<close> is a function met as a value; what it does is not looked at.
\<close>

datatype val =
    VUndefined
  | VNull
  | VBool bool
  | VNum int
  | VStr string
  | VList "val list"
  | VObj "(string \<times> val) list"
  | VRef nat
  | VFunction

text \<open>The directive locations of \<open>graphql/language\<close>.\<close>

datatype location =
    QUERY | MUTATION | SUBSCRIPTION | FIELD | FRAGMENT_DEFINITION | FRAGMENT_SPREAD
  | INLINE_FRAGMENT | VARIABLE_DEFINITION | SCHEMA | SCALAR | OBJECT | FIELD_DEFINITION
  | ARGUMENT_DEFINITION | INTERFACE | UNION | ENUM | ENUM_VALUE | INPUT_OBJECT
  | INPUT_FIELD_DEFINITION

text \<open>
  Everything the code throws is a value of \<open>error\<close>. The three \<open>new Error(...)\<close> of
  \<open>getDirectiveInfo\<close> are told apart by their message; they are named here as the
  specification names them. \<open>TypeError\<close> is what the runtime throws on a property read of
  \<open>undefined\<close> or a call of a non-function. \<open>Thrown\<close> is any other value a handler throws.
\<close>

datatype error =
    UndeclaredDirective string
  | InvalidDirectiveLocation string location
  | MissingDirectiveHandler string
  | ExpectedObject string
  | TypeError string
  | Thrown val

text \<open>
  An invocation of a directive handler or of a field's own resolver is an observable event.
  The state of a query is the list of the invocations made so far, each with the context
  value it was given, and the heap that holds the objects shared by reference. The code
  keeps no such list: it is the record an instrumentation of the calls would write, and no
  handler or resolver can read or change it.
\<close>

datatype event =
    CallDirective location string val
  | CallResolver val

record state =
  calls :: "event list"
  heap :: "nat \<Rightarrow> val"

type_synonym comp = "state \<Rightarrow> (error + val) \<times> state"

subsection \<open>Syntax trees and the schema\<close>

datatype arg_value = Literal val | Variable string

record directive_node =
  name_value :: string
  arguments :: "(string \<times> arg_value) list"

text \<open>A field definition of the schema and a field of a query: only \<open>.directives\<close> is read.\<close>

record ast_node =
  directives :: "directive_node list"

record info =
  field_name :: string
  fieldNodes :: "ast_node list"
  variableValues :: "(string \<times> val) list"

type_synonym resolver = "val \<Rightarrow> val \<Rightarrow> val \<Rightarrow> info \<Rightarrow> comp"

record gfield =
  astNode :: ast_node
  resolve :: "resolver option"

datatype type_kind =
  ObjectType | InterfaceType | InputObjectType | ScalarType | EnumType | UnionType

record gtype =
  kind :: type_kind
  type_fields :: "(string \<times> gfield) list"

text \<open>
  A directive declaration: the locations it allows, and its arguments in the order of the
  declaration, each with its default value when it declares one.
\<close>

record gdirective =
  locations :: "location list"
  directive_args :: "(string \<times> val option) list"

record schema =
  typeMap :: "(string \<times> gtype) list"
  directive_defs :: "(string \<times> gdirective) list"

definition getDirective :: "schema \<Rightarrow> string \<Rightarrow> gdirective option" where
  "getDirective schema name = map_of (directive_defs schema) name"

definition getType :: "schema \<Rightarrow> string \<Rightarrow> gtype option" where
  "getType schema typeName = map_of (typeMap schema) typeName"

subsection \<open>Handlers and resolvers supplied by the caller\<close>

text \<open>
  A field handler of the resolver table, \<open>(obj, args, context, info) => value\<close>: it reads and
  writes the heap, and returns or throws.
\<close>

type_synonym handler_function =
  "val \<Rightarrow> val \<Rightarrow> val \<Rightarrow> info \<Rightarrow> (nat \<Rightarrow> val) \<Rightarrow> (error + val) \<times> (nat \<Rightarrow> val)"

text \<open>
  A directive handler, \<open>(resolve, obj, args, context, info, functionArgs) => value\<close>. Given its
  five data arguments it is a program that returns, throws, reads or writes the heap, or
  calls \<open>resolve()\<close> and goes on with what that call produced: the value it resolved to
  (\<open>Inr\<close>) or the error it threw or rejected with (\<open>Inl\<close>), which \<open>try/catch\<close> lets the handler
  see. A pending value is awaited where it is produced, so a synchronous result and a
  resolved promise are one outcome, and so are a throw and a rejection; a handler that
  starts \<open>resolve()\<close> and never awaits or returns its result is not among these programs.
  The program has the heap, never the record of invocations.
\<close>

datatype hprog =
    Return val
  | Throw error
  | Resolve "error + val \<Rightarrow> hprog"
  | Read "(nat \<Rightarrow> val) \<Rightarrow> hprog"
  | Write "nat \<Rightarrow> val" hprog

type_synonym directive_function = "val \<Rightarrow> val \<Rightarrow> val \<Rightarrow> info \<Rightarrow> val \<Rightarrow> hprog"

primrec exec :: "hprog \<Rightarrow> comp \<Rightarrow> comp" where
  "exec (Return v) k = (\<lambda>s. (Inr v, s))"
| "exec (Throw e) k = (\<lambda>s. (Inl e, s))"
| "exec (Resolve f) k = (\<lambda>s. case k s of (r, s') \<Rightarrow> exec (f r) k s')"
| "exec (Read f) k = (\<lambda>s. exec (f (heap s)) k s)"
| "exec (Write h p) k = (\<lambda>s. exec p k (s\<lparr>heap := h\<rparr>))"

text \<open>
  Calling a field handler of the resolver table, and calling a directive handler with a
  continuation. The call is what records the invocation.
\<close>

definition callHandler :: "handler_function \<Rightarrow> resolver" where
  "callHandler fn source args context info =
     (\<lambda>s. case fn source args context info (heap s) of
             (r, h) \<Rightarrow> (r, \<lparr>calls = calls s @ [CallResolver context], heap = h\<rparr>))"

definition callDirective ::
  "location \<Rightarrow> string \<Rightarrow> directive_function \<Rightarrow> comp \<Rightarrow> val \<Rightarrow> val \<Rightarrow> val \<Rightarrow> info \<Rightarrow> val \<Rightarrow> comp" where
  "callDirective location name fn k source dargs context info args =
     (\<lambda>s. exec (fn source dargs context info args) k
             (s\<lparr>calls := calls s @ [CallDirective location name context]\<rparr>))"

text \<open>
  The directive table is an object of the caller, and the code reads it by
  \<open>resolverMap[name]\<close>, with no test that the property is the object's own. For an object
  written as a literal, \<open>{ role, upper }\<close>, the read gives the own property of that name, or
  else what every object inherits from \<open>Object.prototype\<close>. \<open>objectPrototype\<close> is what these
  inherited members do when the code calls one as a handler, \<open>directiveInfo.resolver(resolve,
  source, args, context, info, functionArgs)\<close>, with the object \<open>{ args, resolver }\<close> as
  \<open>this\<close> and the continuation, a function, as first argument: \<open>toString\<close> and
  \<open>toLocaleString\<close> return \<open>"[object Object]"\<close>; \<open>hasOwnProperty\<close>, \<open>isPrototypeOf\<close> and
  \<open>propertyIsEnumerable\<close> return \<open>false\<close>; \<open>valueOf\<close> returns \<open>this\<close>; \<open>constructor\<close>, which is
  \<open>Object\<close>, returns its argument; the four legacy accessors look at their first two
  arguments only; and \<open>__proto__\<close> reads as the prototype itself, an object, whose call throws.
  None of them calls the continuation.
\<close>

definition objectPrototype :: "string \<Rightarrow> directive_function option" where
  "objectPrototype name =
     (if name \<in> {''toString'', ''toLocaleString''} then
        Some (\<lambda>source dargs context info args. Return (VStr ''[object Object]''))
      else if name \<in> {''hasOwnProperty'', ''isPrototypeOf'', ''propertyIsEnumerable''} then
        Some (\<lambda>source dargs context info args. Return (VBool False))
      else if name = ''valueOf'' then
        Some (\<lambda>source dargs context info args.
                Return (VObj [(''args'', dargs), (''resolver'', VFunction)]))
      else if name = ''constructor'' then
        Some (\<lambda>source dargs context info args. Return VFunction)
      else if name \<in> {''__lookupGetter__'', ''__lookupSetter__''} then
        Some (\<lambda>source dargs context info args. Return VUndefined)
      else if name = ''__defineGetter__'' then
        Some (\<lambda>source dargs context info args.
                if source = VFunction then Return VUndefined
                else Throw (TypeError ''Object.prototype.__defineGetter__: Expecting function''))
      else if name = ''__defineSetter__'' then
        Some (\<lambda>source dargs context info args.
                if source = VFunction then Return VUndefined
                else Throw (TypeError ''Object.prototype.__defineSetter__: Expecting function''))
      else if name = ''__proto__'' then
        Some (\<lambda>source dargs context info args.
                Throw (TypeError ''directiveInfo.resolver is not a function''))
      else None)"

definition plainObject ::
  "(string \<Rightarrow> directive_function option) \<Rightarrow> string \<Rightarrow> directive_function option" where
  "plainObject own name = (case own name of Some fn \<Rightarrow> Some fn | None \<Rightarrow> objectPrototype name)"

text \<open>
  Modelled from the spec: the execution engine's default resolver, which is not part of this
  repository: "read property by field name from parentValue".
\<close>

definition property :: "val \<Rightarrow> string \<Rightarrow> val" where
  "property v key = (case v of VObj kvs \<Rightarrow> (case map_of kvs key of Some x \<Rightarrow> x | None \<Rightarrow> VUndefined)
                              | _ \<Rightarrow> VUndefined)"

definition defaultFieldResolver :: resolver where
  "defaultFieldResolver source args context info =
     (\<lambda>s. (Inr (property source (field_name info)), s\<lparr>calls := calls s @ [CallResolver context]\<rparr>))"

text \<open>
  Modelled from the spec: the engine's directive-argument evaluator \<open>getDirectiveValues\<close>, not
  part of this repository: argument values "resolved against literal values or bound query
  variables, producing a plain mapping from argument name to value", with "coercion/defaulting
  delegated to the external engine's directive-argument evaluator". The mapping has the
  arguments that the directive declares, in the order of the declaration: the value the usage
  gives, a literal or the value of a bound variable, or else, when the usage gives none or
  names a variable that is not bound, the declared default; an argument with neither is left
  out. A literal is held as the value it denotes for its declared type. The errors of the
  evaluator (a required argument that is missing, a value not of the declared type) are those
  the engine's validation of the schema text and of the query reports first; they are not
  modelled.
\<close>

definition argumentValue ::
  "(string \<times> arg_value) list \<Rightarrow> (string \<times> val) list option \<Rightarrow> string \<Rightarrow> val option" where
  "argumentValue given variables name =
     (case map_of given name of
        None \<Rightarrow> None
      | Some (Literal v) \<Rightarrow> Some v
      | Some (Variable x) \<Rightarrow> (case variables of None \<Rightarrow> None | Some vs \<Rightarrow> map_of vs x))"

definition getDirectiveValues ::
  "gdirective \<Rightarrow> directive_node \<Rightarrow> (string \<times> val) list option \<Rightarrow> val" where
  "getDirectiveValues Directive directive variables =
     VObj (concat (map (\<lambda>(name, defaultValue).
        case argumentValue (arguments directive) variables name of
          Some v \<Rightarrow> [(name, v)]
        | None \<Rightarrow> (case defaultValue of Some v \<Rightarrow> [(name, v)] | None \<Rightarrow> []))
      (directive_args Directive)))"

section \<open>graphql-directives.mjs\<close>

text \<open>
  \<open>BUILT_IN_DIRECTIVES\<close> (line 30), \<open>getFieldResolver\<close> (lines 32 to 35: \<open>field.resolve ||
  defaultFieldResolver\<close>) and \<open>createAsyncResolver\<close> (lines 37 to 41), whose \<open>async\<close> function calls
  the field's resolver with the arguments it is given; that it turns a throw into a rejection
  makes no difference to the outcome here.
\<close>

definition BUILT_IN_DIRECTIVES :: "string list" where
  "BUILT_IN_DIRECTIVES = [''deprecated'', ''skip'', ''include'']"

definition getFieldResolver :: "gfield \<Rightarrow> resolver" where
  "getFieldResolver field = (case resolve field of None \<Rightarrow> defaultFieldResolver | Some r \<Rightarrow> r)"

definition createAsyncResolver :: "gfield \<Rightarrow> resolver" where
  "createAsyncResolver field =
     (let originalResolver = getFieldResolver field
      in (\<lambda>source args context info. originalResolver source args context info))"

text \<open>
  \<open>getDirectiveInfo\<close> (lines 43 to 71). The directive table is read by \<open>resolverMap[name]\<close>: it
  is modelled by that lookup, \<open>None\<close> where the read gives nothing truthy; for a table that
  is an object literal the lookup is \<open>plainObject\<close> of its own properties. The three checks
  are made in the order of the source.
\<close>

record directive_info =
  di_args :: val
  di_resolver :: directive_function

definition getDirectiveInfo ::
  "directive_node \<Rightarrow> (string \<Rightarrow> directive_function option) \<Rightarrow> schema \<Rightarrow> location
     \<Rightarrow> (string \<times> val) list option \<Rightarrow> error + directive_info" where
  "getDirectiveInfo directive resolverMap schema location variables =
     (let name = name_value directive in
      case getDirective schema name of
        None \<Rightarrow> Inl (UndeclaredDirective name)
      | Some Directive \<Rightarrow>
          if location \<notin> set (locations Directive) then Inl (InvalidDirectiveLocation name location)
          else (case resolverMap name of
                  None \<Rightarrow> Inl (MissingDirectiveHandler name)
                | Some resolver \<Rightarrow>
                    Inr \<lparr>di_args = getDirectiveValues Directive directive variables,
                         di_resolver = resolver\<rparr>))"

text \<open>\<open>filterCustomDirectives\<close> (lines 73 to 75).\<close>

definition filterCustomDirectives :: "directive_node list \<Rightarrow> directive_node list" where
  "filterCustomDirectives ds = filter (\<lambda>directive. name_value directive \<notin> set BUILT_IN_DIRECTIVES) ds"

text \<open>\<open>Array.prototype.reduce\<close> with a callback that may throw: the first throw ends it.\<close>

fun reduce :: "('a \<Rightarrow> 'b \<Rightarrow> error + 'a) \<Rightarrow> 'a \<Rightarrow> 'b list \<Rightarrow> error + 'a" where
  "reduce f acc [] = Inr acc"
| "reduce f acc (x # xs) = (case f acc x of Inl e \<Rightarrow> Inl e | Inr acc' \<Rightarrow> reduce f acc' xs)"

text \<open>
  \<open>createFieldExecutionResolver\<close> (lines 77 to 96), and first the callback it gives to
  \<open>reduce\<close> (lines 80 to 95): discovery of the directive, then the function that calls its
  handler with the continuation \<open>() => recursiveResolver(source, args, context, info)\<close>, the
  parent value, the directive's arguments, the context, \<open>info\<close> and the field's arguments.
\<close>

definition executionStep ::
  "(string \<Rightarrow> directive_function option) \<Rightarrow> schema \<Rightarrow> resolver \<Rightarrow> directive_node
     \<Rightarrow> error + resolver" where
  "executionStep resolverMap schema recursiveResolver directive =
     (case getDirectiveInfo directive resolverMap schema FIELD_DEFINITION None of
        Inl e \<Rightarrow> Inl e
      | Inr directiveInfo \<Rightarrow>
          Inr (\<lambda>source args context info.
            callDirective FIELD_DEFINITION (name_value directive) (di_resolver directiveInfo)
              (recursiveResolver source args context info)
              source (di_args directiveInfo) context info args))"

definition createFieldExecutionResolver ::
  "gfield \<Rightarrow> (string \<Rightarrow> directive_function option) \<Rightarrow> schema \<Rightarrow> error + resolver" where
  "createFieldExecutionResolver field resolverMap schema =
     (let customDirectives = filterCustomDirectives (directives (astNode field)) in
      if customDirectives = [] then Inr (getFieldResolver field)
      else reduce (executionStep resolverMap schema) (createAsyncResolver field) customDirectives)"

text \<open>
  \<open>createFieldResolver\<close> (lines 98 to 125), and first the callback that the resolver it makes
  gives to \<open>reduce\<close> (lines 104 to 121), inside one invocation with \<open>(source, args, context,
  info)\<close>. The function the callback makes takes no parameters: it ignores what it is called
  with and uses the arguments of the invocation. Reading \<open>info.fieldNodes[0].directives\<close> of
  an empty list of nodes throws.
\<close>

definition fieldStep ::
  "(string \<Rightarrow> directive_function option) \<Rightarrow> schema \<Rightarrow> val \<Rightarrow> val \<Rightarrow> val \<Rightarrow> info
     \<Rightarrow> resolver \<Rightarrow> directive_node \<Rightarrow> error + resolver" where
  "fieldStep resolverMap schema source args context info recursiveResolver directive =
     (case getDirectiveInfo directive resolverMap schema FIELD (Some (variableValues info)) of
        Inl e \<Rightarrow> Inl e
      | Inr directiveInfo \<Rightarrow>
          Inr (\<lambda>_ _ _ _.
            callDirective FIELD (name_value directive) (di_resolver directiveInfo)
              (recursiveResolver source args context info)
              source (di_args directiveInfo) context info args))"

definition createFieldResolver ::
  "gfield \<Rightarrow> (string \<Rightarrow> directive_function option) \<Rightarrow> schema \<Rightarrow> resolver" where
  "createFieldResolver field resolverMap schema =
     (let originalResolver = getFieldResolver field;
          asyncResolver = createAsyncResolver field
      in (\<lambda>source args context info.
        case fieldNodes info of
          [] \<Rightarrow> (\<lambda>s. (Inl (TypeError ''Cannot read properties of undefined (reading 'directives')''), s))
        | node # _ \<Rightarrow>
            (let customDirectives = filterCustomDirectives (directives node) in
             if customDirectives = [] then originalResolver source args context info
             else (case reduce (fieldStep resolverMap schema source args context info)
                          asyncResolver customDirectives of
                     Inl e \<Rightarrow> (\<lambda>s. (Inl e, s))
                   | Inr fieldResolver \<Rightarrow> fieldResolver source args context info))))"

definition startsWith :: "string \<Rightarrow> string \<Rightarrow> bool" where
  "startsWith str prefix = (take (length prefix) str = prefix)"

text \<open>
  \<open>forEachField\<close> (lines 9 to 24): the callback is run on every field of every object type whose name does
  not start with two underscores, in the order of the type map. The callback of the source
  assigns to \<open>field.resolve\<close>; here it returns the field it leaves, or the error it throws,
  which ends the traversal.
\<close>

fun forEachFieldOf ::
  "(gfield \<Rightarrow> string \<Rightarrow> string \<Rightarrow> error + gfield) \<Rightarrow> string \<Rightarrow> (string \<times> gfield) list
     \<Rightarrow> error + (string \<times> gfield) list" where
  "forEachFieldOf fn typeName [] = Inr []"
| "forEachFieldOf fn typeName ((fieldName, field) # fieldMap) =
     (case fn field typeName fieldName of
        Inl e \<Rightarrow> Inl e
      | Inr field' \<Rightarrow>
          (case forEachFieldOf fn typeName fieldMap of
             Inl e \<Rightarrow> Inl e
           | Inr fieldMap' \<Rightarrow> Inr ((fieldName, field') # fieldMap')))"

fun forEachType ::
  "(gfield \<Rightarrow> string \<Rightarrow> string \<Rightarrow> error + gfield) \<Rightarrow> (string \<times> gtype) list
     \<Rightarrow> error + (string \<times> gtype) list" where
  "forEachType fn [] = Inr []"
| "forEachType fn ((typeName, type) # types) =
     (if \<not> startsWith typeName ''__'' \<and> kind type = ObjectType then
        (case forEachFieldOf fn typeName (type_fields type) of
           Inl e \<Rightarrow> Inl e
         | Inr fieldMap' \<Rightarrow>
             (case forEachType fn types of
                Inl e \<Rightarrow> Inl e
              | Inr types' \<Rightarrow> Inr ((typeName, type\<lparr>type_fields := fieldMap'\<rparr>) # types')))
      else
        (case forEachType fn types of
           Inl e \<Rightarrow> Inl e
         | Inr types' \<Rightarrow> Inr ((typeName, type) # types')))"

definition forEachField ::
  "schema \<Rightarrow> (gfield \<Rightarrow> string \<Rightarrow> string \<Rightarrow> error + gfield) \<Rightarrow> error + schema" where
  "forEachField schema fn =
     (case forEachType fn (typeMap schema) of
        Inl e \<Rightarrow> Inl e
      | Inr types' \<Rightarrow> Inr (schema\<lparr>typeMap := types'\<rparr>))"

text \<open>
  What the caller may pass as the directive table: an object (read by name), an array, or a
  value whose \<open>typeof\<close> is not \<open>object\<close>.
\<close>

datatype directive_table =
    Handlers "string \<Rightarrow> directive_function option"
  | AnArray
  | NotAnObject string

text \<open>
  \<open>addDirectiveResolveFunctionsToSchema\<close> (lines 127 to 142), and first the two assignments to
  \<open>field.resolve\<close> in the callback it gives to the traversal: the second reads the field's
  resolver after the first has set it. Of the schema, composition reads the directive
  declarations only, which the traversal does not change.
\<close>

definition installResolvers ::
  "(string \<Rightarrow> directive_function option) \<Rightarrow> schema \<Rightarrow> gfield \<Rightarrow> error + gfield" where
  "installResolvers resolverMap schema field =
     (case createFieldExecutionResolver field resolverMap schema of
        Inl e \<Rightarrow> Inl e
      | Inr r \<Rightarrow>
          (let field1 = field\<lparr>resolve := Some r\<rparr>
           in Inr (field1\<lparr>resolve := Some (createFieldResolver field1 resolverMap schema)\<rparr>)))"

definition addDirectiveResolveFunctionsToSchema :: "schema \<Rightarrow> directive_table \<Rightarrow> error + schema" where
  "addDirectiveResolveFunctionsToSchema schema resolverMap =
     (case resolverMap of
        NotAnObject t \<Rightarrow> Inl (ExpectedObject t)
      | AnArray \<Rightarrow> Inl (ExpectedObject ''Array'')
      | Handlers table \<Rightarrow>
          forEachField schema (\<lambda>field typeName fieldName. installResolvers table schema field))"

section \<open>index.mts\<close>

text \<open>
  \<open>buildSchemaWithResolvers\<close> (lines 11 to 27). The resolver table is an object of objects;
  \<open>Object.keys\<close> lists its entries in order, each key once. The inner loop assigns a handler
  to the field of its name when the type has such a field. \<open>type.getFields()\<close> throws when
  \<open>schema.getType(typeName)\<close> is \<open>undefined\<close> and when the type is one without fields.
\<close>

fun assignHandlers :: "(string \<times> handler_function) list \<Rightarrow> (string \<times> gfield) list \<Rightarrow> (string \<times> gfield) list" where
  "assignHandlers [] fieldMap = fieldMap"
| "assignHandlers ((fieldName, fn) # rest) fieldMap =
     assignHandlers rest
       (if fieldName \<in> set (map fst fieldMap)
        then map (\<lambda>(n, field). if n = fieldName then (n, field\<lparr>resolve := Some (callHandler fn)\<rparr>)
                                else (n, field)) fieldMap
        else fieldMap)"

definition getFields :: "gtype option \<Rightarrow> error + (string \<times> gfield) list" where
  "getFields type =
     (case type of
        None \<Rightarrow> Inl (TypeError ''Cannot read properties of undefined (reading 'getFields')'')
      | Some t \<Rightarrow>
          if kind t \<in> {ObjectType, InterfaceType, InputObjectType} then Inr (type_fields t)
          else Inl (TypeError ''type.getFields is not a function''))"

fun assignTypes :: "(string \<times> (string \<times> handler_function) list) list \<Rightarrow> schema \<Rightarrow> error + schema" where
  "assignTypes [] schema = Inr schema"
| "assignTypes ((typeName, handlers) # rest) schema =
     (case getFields (getType schema typeName) of
        Inl e \<Rightarrow> Inl e
      | Inr fieldMap \<Rightarrow>
          assignTypes rest
            (schema\<lparr>typeMap :=
               map (\<lambda>(n, t). if n = typeName then (n, t\<lparr>type_fields := assignHandlers handlers fieldMap\<rparr>)
                              else (n, t)) (typeMap schema)\<rparr>))"

text \<open>
  The function itself, from the schema that \<open>buildSchema\<close> (the engine's parser) made of the
  schema text; \<open>None\<close> is a directive table that is absent or not truthy.
\<close>

definition buildSchemaWithResolvers ::
  "(string \<times> (string \<times> handler_function) list) list \<Rightarrow> schema \<Rightarrow> directive_table option
     \<Rightarrow> error + schema" where
  "buildSchemaWithResolvers resolverMap parsed directiveTable =
     (case assignTypes resolverMap parsed of
        Inl e \<Rightarrow> Inl e
      | Inr schema \<Rightarrow>
          (case directiveTable of
             None \<Rightarrow> Inr schema
           | Some table \<Rightarrow> addDirectiveResolveFunctionsToSchema schema table))"

text \<open>
  Modelled from the spec: the execution engine, which is not part of this repository, as far
  as one field goes: it "invokes the final composed resolver per field per object instance
  it visits", the resolver installed on the field or else the default one, with the context
  value of the caller.
\<close>

definition executeField :: "schema \<Rightarrow> string \<Rightarrow> string \<Rightarrow> val \<Rightarrow> val \<Rightarrow> val \<Rightarrow> info \<Rightarrow> comp" where
  "executeField schema typeName fieldName source args context info =
     (\<lambda>s. case getType schema typeName of
             None \<Rightarrow> (Inl (TypeError ''unknown type''), s)
           | Some t \<Rightarrow>
               (case map_of (type_fields t) fieldName of
                  None \<Rightarrow> (Inl (TypeError ''unknown field''), s)
                | Some field \<Rightarrow> getFieldResolver field source args context info s))"

text \<open>
  \<open>graphql\<close> (index.mts, lines 53 to 59) builds the schema with \<open>buildSchemaWithResolvers\<close> and
  hands it to the engine; \<open>graphqlField\<close> is \<open>graphql\<close> as far as one visited field goes.
\<close>

definition graphqlField ::
  "(string \<times> (string \<times> handler_function) list) list \<Rightarrow> schema \<Rightarrow> directive_table option
     \<Rightarrow> string \<Rightarrow> string \<Rightarrow> val \<Rightarrow> val \<Rightarrow> val \<Rightarrow> info \<Rightarrow> comp" where
  "graphqlField handlers parsed directiveTable typeName fieldName source args context info =
     (\<lambda>s. case buildSchemaWithResolvers handlers parsed directiveTable of
             Inl e \<Rightarrow> (Inl e, s)
           | Inr schema \<Rightarrow> executeField schema typeName fieldName source args context info s)"

section \<open>Notions used in the statements\<close>

text \<open>
  The resolver that a composition gave, for statements about a given field: when the
  composition threw, the resolver that throws the same error.
\<close>

definition resolverOf :: "error + resolver \<Rightarrow> resolver" where
  "resolverOf x = (case x of Inl e \<Rightarrow> (\<lambda>_ _ _ _ s. (Inl e, s)) | Inr r \<Rightarrow> r)"

text \<open>
  How often a run of a handler calls its continuation, and the state in which it first does
  so. Neither looks at more than \<open>exec\<close> does on the same run.
\<close>

primrec resolves :: "hprog \<Rightarrow> comp \<Rightarrow> state \<Rightarrow> nat" where
  "resolves (Return v) k = (\<lambda>s. 0)"
| "resolves (Throw e) k = (\<lambda>s. 0)"
| "resolves (Resolve f) k = (\<lambda>s. case k s of (r, s') \<Rightarrow> Suc (resolves (f r) k s'))"
| "resolves (Read f) k = (\<lambda>s. resolves (f (heap s)) k s)"
| "resolves (Write h p) k = (\<lambda>s. resolves p k (s\<lparr>heap := h\<rparr>))"

primrec atResolve :: "hprog \<Rightarrow> state \<Rightarrow> state" where
  "atResolve (Return v) = (\<lambda>s. s)"
| "atResolve (Throw e) = (\<lambda>s. s)"
| "atResolve (Resolve f) = (\<lambda>s. s)"
| "atResolve (Read f) = (\<lambda>s. atResolve (f (heap s)) s)"
| "atResolve (Write h p) = (\<lambda>s. atResolve p (s\<lparr>heap := h\<rparr>))"

text \<open>
  On the invocation of a declaration-site chain with \<open>(source, args, context, info)\<close> in state
  \<open>s\<close>, every handler calls its continuation, once. The directives are listed from the
  outermost (the last declared) inwards; \<open>base\<close> is the resolver under the innermost. The
  outermost handler is entered in \<open>s\<close> with its invocation recorded; the handlers inside it
  are entered in the state in which it calls its continuation.
\<close>

fun everyHandlerContinues ::
  "(string \<Rightarrow> directive_function option) \<Rightarrow> schema \<Rightarrow> resolver \<Rightarrow> directive_node list
     \<Rightarrow> val \<Rightarrow> val \<Rightarrow> val \<Rightarrow> info \<Rightarrow> state \<Rightarrow> bool" where
  "everyHandlerContinues resolverMap schema base [] source args context info s = True"
| "everyHandlerContinues resolverMap schema base (d # inner) source args context info s =
     (case getDirectiveInfo d resolverMap schema FIELD_DEFINITION None of
        Inl e \<Rightarrow> False
      | Inr directiveInfo \<Rightarrow>
          (case reduce (executionStep resolverMap schema) base (rev inner) of
             Inl e \<Rightarrow> False
           | Inr k \<Rightarrow>
               (let p = di_resolver directiveInfo source (di_args directiveInfo) context info args;
                    s1 = s\<lparr>calls := calls s @ [CallDirective FIELD_DEFINITION (name_value d) context]\<rparr>
                in resolves p (k source args context info) s1 = 1
                   \<and> everyHandlerContinues resolverMap schema base inner source args context info
                        (atResolve p s1))))"

text \<open>The context value an invocation was given, and whether it was of a usage-site handler.\<close>

primrec eventContext :: "event \<Rightarrow> val" where
  "eventContext (CallDirective location name context) = context"
| "eventContext (CallResolver context) = context"

primrec usageSite :: "event \<Rightarrow> bool" where
  "usageSite (CallDirective location name context) = (location = FIELD)"
| "usageSite (CallResolver context) = False"

text \<open>
  A program that fails with the error \<open>e\<close> whatever it reads, after at most reading and writing
  the heap: it calls no continuation and returns no value. And a handler that passes on the
  failures of its continuation: whenever a call of its continuation fails with an error, the
  rest of the handler is such a program for that same error. That is \<open>return resolve()\<close>,
  \<open>await resolve()\<close> outside any \<open>try\<close>, and \<open>await resolve()\<close> inside a \<open>try\<close> with a
  \<open>finally\<close> block that only reads and writes and no \<open>catch\<close>. A handler that catches the
  error, and one that returns a value of its own after the failure, do not pass it on.
\<close>

primrec failsWith :: "error \<Rightarrow> hprog \<Rightarrow> bool" where
  "failsWith e (Return v) = False"
| "failsWith e (Throw e') = (e' = e)"
| "failsWith e (Resolve f) = False"
| "failsWith e (Read f) = (\<forall>h. failsWith e (f h))"
| "failsWith e (Write h p) = failsWith e p"

primrec passesFailuresOn :: "hprog \<Rightarrow> bool" where
  "passesFailuresOn (Return v) = True"
| "passesFailuresOn (Throw e) = True"
| "passesFailuresOn (Resolve f) =
     ((\<forall>e. failsWith e (f (Inl e))) \<and> (\<forall>v. passesFailuresOn (f (Inr v))))"
| "passesFailuresOn (Read f) = (\<forall>h. passesFailuresOn (f h))"
| "passesFailuresOn (Write h p) = passesFailuresOn p"

text \<open>
  Notions of the proofs only: a property of what a computation adds to the recorded
  invocations; that whatever is not a usage-site invocation comes after the usage-site
  invocations of the given names; and that a computation ends as some failing run of a
  given part did, with the error of that run and with no invocation recorded after those of
  that run, or else as another computation does.
\<close>

definition appends :: "(event list \<Rightarrow> bool) \<Rightarrow> comp \<Rightarrow> bool" where
  "appends Q k = (\<forall>t. \<exists>evs. calls (snd (k t)) = calls t @ evs \<and> Q evs)"

definition precededBy :: "val \<Rightarrow> string set \<Rightarrow> event list \<Rightarrow> bool" where
  "precededBy context D evs =
     (\<forall>pre e post. evs = pre @ e # post \<longrightarrow> \<not> usageSite e \<longrightarrow>
        (\<forall>n \<in> D. CallDirective FIELD n context \<in> set pre))"

definition failureOrSame :: "comp \<Rightarrow> comp \<Rightarrow> comp \<Rightarrow> state \<Rightarrow> bool" where
  "failureOrSame R K K' s =
     ((\<exists>s0. isl (fst (R s0)) \<and> fst (K s) = fst (R s0) \<and> calls (snd (K s)) = calls (snd (R s0)))
      \<or> K' s = K s)"

section \<open>The example of the README\<close>

text \<open>
  The schema, the handlers and the directive handlers of the README, as \<open>buildSchema\<close> parses
  them: \<open>secret: String! @whatever @role(role: "ADMIN")\<close>, with \<open>@whatever\<close> and \<open>@role\<close>
  declared on \<open>FIELD_DEFINITION\<close> and \<open>@upper\<close> on \<open>FIELD\<close>, beside the directives every schema
  has.
\<close>

definition plainField :: gfield where
  "plainField = \<lparr>astNode = \<lparr>directives = []\<rparr>, resolve = None\<rparr>"

definition whateverNode :: directive_node where
  "whateverNode = \<lparr>name_value = ''whatever'', arguments = []\<rparr>"

definition roleNode :: directive_node where
  "roleNode = \<lparr>name_value = ''role'', arguments = [(''role'', Literal (VStr ''ADMIN''))]\<rparr>"

definition upperNode :: directive_node where
  "upperNode = \<lparr>name_value = ''upper'', arguments = []\<rparr>"

definition secretField :: gfield where
  "secretField = \<lparr>astNode = \<lparr>directives = [whateverNode, roleNode]\<rparr>, resolve = None\<rparr>"

definition readmeSchema :: schema where
  "readmeSchema = \<lparr>typeMap =
      [(''Person'', \<lparr>kind = ObjectType, type_fields =
          [(''name'', plainField), (''surname'', plainField), (''fullname'', plainField),
           (''secret'', secretField)]\<rparr>),
       (''Query'', \<lparr>kind = ObjectType, type_fields = [(''get'', plainField)]\<rparr>),
       (''String'', \<lparr>kind = ScalarType, type_fields = []\<rparr>)],
     directive_defs =
      [(''whatever'', \<lparr>locations = [FIELD_DEFINITION], directive_args = []\<rparr>),
       (''role'', \<lparr>locations = [FIELD_DEFINITION], directive_args = [(''role'', None)]\<rparr>),
       (''upper'', \<lparr>locations = [FIELD], directive_args = []\<rparr>),
       (''skip'', \<lparr>locations = [FIELD, FRAGMENT_SPREAD, INLINE_FRAGMENT],
                   directive_args = [(''if'', None)]\<rparr>),
       (''include'', \<lparr>locations = [FIELD, FRAGMENT_SPREAD, INLINE_FRAGMENT],
                      directive_args = [(''if'', None)]\<rparr>),
       (''deprecated'', \<lparr>locations =
          [FIELD_DEFINITION, ARGUMENT_DEFINITION, INPUT_FIELD_DEFINITION, ENUM_VALUE],
          directive_args = [(''reason'', Some (VStr ''No longer supported''))]\<rparr>)]\<rparr>"

text \<open>\<open>return resolve()\<close>, and \<open>return await resolve()\<close> outside a \<open>try\<close>.\<close>

definition settle :: "error + val \<Rightarrow> hprog" where
  "settle r = (case r of Inl e \<Rightarrow> Throw e | Inr v \<Rightarrow> Return v)"

definition deref :: "(nat \<Rightarrow> val) \<Rightarrow> val \<Rightarrow> val" where
  "deref h v = (case v of VRef a \<Rightarrow> h a | _ \<Rightarrow> v)"

definition toUpperCase :: "string \<Rightarrow> string" where
  "toUpperCase str =
     map (\<lambda>c. case map_of (zip ''abcdefghijklmnopqrstuvwxyz'' ''ABCDEFGHIJKLMNOPQRSTUVWXYZ'') c of
                Some u \<Rightarrow> u | None \<Rightarrow> c) str"

definition roleDirective :: directive_function where
  "roleDirective source dargs context info args =
     Read (\<lambda>h. if property dargs ''role'' \<noteq> property (deref h context) ''role''
                then Throw (Thrown (VStr ''Unauthorized''))
                else Resolve settle)"

definition whateverDirective :: directive_function where
  "whateverDirective source dargs context info args = Resolve settle"

definition upperDirective :: directive_function where
  "upperDirective source dargs context info args =
     Resolve (\<lambda>r. case r of
                     Inl e \<Rightarrow> Throw e
                   | Inr v \<Rightarrow> (case v of VStr str \<Rightarrow> Return (VStr (toUpperCase str))
                              | _ \<Rightarrow> Return v))"

definition readmeDirectives :: "string \<Rightarrow> directive_function option" where
  "readmeDirectives =
     plainObject [''role'' \<mapsto> roleDirective, ''whatever'' \<mapsto> whateverDirective,
                  ''upper'' \<mapsto> upperDirective]"

text \<open>The person, the context value (an object of the caller, held by reference) and the query
  \<open>secret @upper\<close> of the README.\<close>

definition person :: val where
  "person = VObj [(''name'', VStr ''John''), (''surname'', VStr ''Doe''),
                  (''secret'', VStr ''123456789abcd'')]"

definition contextValue :: val where
  "contextValue = VRef 0"

definition readmeState :: state where
  "readmeState = \<lparr>calls = [],
                   heap = (\<lambda>a. VUndefined)(0 := VObj [(''role'', VStr ''ADMIN'')])\<rparr>"

definition secretInfo :: info where
  "secretInfo = \<lparr>field_name = ''secret'', fieldNodes = [\<lparr>directives = [upperNode]\<rparr>],
                  variableValues = []\<rparr>"

definition fullname :: handler_function where
  "fullname obj args context info =
     (\<lambda>h. (case (property obj ''surname'', property obj ''name'') of
              (VStr a, VStr b) \<Rightarrow> Inr (VStr (a @ '' '' @ b))
            | _ \<Rightarrow> Inr VUndefined, h))"

definition getPerson :: handler_function where
  "getPerson obj args context info = (\<lambda>h. (Inr person, h))"

definition readmeHandlers :: "(string \<times> (string \<times> handler_function) list) list" where
  "readmeHandlers = [(''Person'', [(''fullname'', fullname)]), (''Query'', [(''get'', getPerson)])]"

section \<open>Further examples\<close>

text \<open>
  Handlers that record their name in a list the context value refers to, as the
  specification's scenario of the shared context has them.
\<close>

definition push :: "string \<Rightarrow> val \<Rightarrow> (nat \<Rightarrow> val) \<Rightarrow> (nat \<Rightarrow> val)" where
  "push name context h =
     (case context of
        VRef a \<Rightarrow> (case h a of VList xs \<Rightarrow> h(a := VList (xs @ [VStr name])) | _ \<Rightarrow> h)
      | _ \<Rightarrow> h)"

definition recordingDirective :: "string \<Rightarrow> directive_function" where
  "recordingDirective name source dargs context info args =
     Read (\<lambda>h. Write (push name context h) (Resolve settle))"

definition recordingHandler :: "string \<Rightarrow> handler_function" where
  "recordingHandler name obj args context info = (\<lambda>h. (Inr (VStr name), push name context h))"

definition recordingDirectives :: "string \<Rightarrow> directive_function option" where
  "recordingDirectives =
     plainObject [''role'' \<mapsto> recordingDirective ''role'',
                  ''whatever'' \<mapsto> recordingDirective ''whatever'',
                  ''upper'' \<mapsto> recordingDirective ''upper'']"

definition recordingHandlers :: "(string \<times> (string \<times> handler_function) list) list" where
  "recordingHandlers =
     [(''Person'', [(''secret'', recordingHandler ''secret''),
                    (''fullname'', recordingHandler ''fullname'')])]"

definition listState :: state where
  "listState = \<lparr>calls = [], heap = (\<lambda>a. VUndefined)(0 := VList [])\<rparr>"

definition fullnameInfo :: info where
  "fullnameInfo = \<lparr>field_name = ''fullname'', fieldNodes = [\<lparr>directives = []\<rparr>],
                    variableValues = []\<rparr>"

text \<open>
  A handler that returns \<open>"X"\<close> without calling its continuation, a handler that catches what
  its continuation throws, a handler that awaits its continuation in a \<open>try\<close> whose \<open>finally\<close>
  block appends to the list behind the context value, and a field handler that throws; with
  a schema that declares the directives and uses two of them.
\<close>

definition stopDirective :: directive_function where
  "stopDirective source dargs context info args = Return (VStr ''X'')"

definition recoverDirective :: directive_function where
  "recoverDirective source dargs context info args =
     Resolve (\<lambda>r. case r of Inl e \<Rightarrow> Return (VStr ''recovered'') | Inr v \<Rightarrow> Return v)"

definition auditDirective :: directive_function where
  "auditDirective source dargs context info args =
     Resolve (\<lambda>r. Read (\<lambda>h. Write (push ''audit'' context h) (settle r)))"

definition boom :: handler_function where
  "boom obj args context info = (\<lambda>h. (Inl (Thrown (VStr ''boom'')), h))"

definition stopNode :: directive_node where
  "stopNode = \<lparr>name_value = ''stop'', arguments = []\<rparr>"

definition recoverNode :: directive_node where
  "recoverNode = \<lparr>name_value = ''recover'', arguments = []\<rparr>"

definition auditNode :: directive_node where
  "auditNode = \<lparr>name_value = ''audit'', arguments = []\<rparr>"

definition nopeNode :: directive_node where
  "nopeNode = \<lparr>name_value = ''nope'', arguments = []\<rparr>"

definition stoppedField :: gfield where
  "stoppedField = \<lparr>astNode = \<lparr>directives = [whateverNode, stopNode, roleNode]\<rparr>, resolve = None\<rparr>"

definition riskyField :: gfield where
  "riskyField = \<lparr>astNode = \<lparr>directives = [recoverNode]\<rparr>, resolve = None\<rparr>"

definition guardedField :: gfield where
  "guardedField = \<lparr>astNode = \<lparr>directives = [whateverNode, roleNode]\<rparr>,
                    resolve = Some (callHandler boom)\<rparr>"

definition demoSchema :: schema where
  "demoSchema = \<lparr>typeMap =
      [(''Query'', \<lparr>kind = ObjectType, type_fields =
          [(''risky'', riskyField), (''stopped'', stoppedField)]\<rparr>)],
     directive_defs = directive_defs readmeSchema
        @ [(''stop'', \<lparr>locations = [FIELD_DEFINITION, FIELD], directive_args = []\<rparr>),
           (''recover'', \<lparr>locations = [FIELD_DEFINITION], directive_args = []\<rparr>),
           (''audit'', \<lparr>locations = [FIELD], directive_args = []\<rparr>)]\<rparr>"

definition demoDirectives :: "string \<Rightarrow> directive_function option" where
  "demoDirectives =
     plainObject [''role'' \<mapsto> roleDirective, ''whatever'' \<mapsto> whateverDirective,
                  ''upper'' \<mapsto> upperDirective, ''stop'' \<mapsto> stopDirective,
                  ''recover'' \<mapsto> recoverDirective, ''audit'' \<mapsto> auditDirective]"

definition demoHandlers :: "(string \<times> (string \<times> handler_function) list) list" where
  "demoHandlers = [(''Query'', [(''risky'', boom)])]"

definition riskyInfo :: info where
  "riskyInfo = \<lparr>field_name = ''risky'', fieldNodes = [\<lparr>directives = []\<rparr>], variableValues = []\<rparr>"

text \<open>
  The query \<open>stopped @stop @upper\<close> (\<open>@stop\<close> is declared for both locations), and the query
  \<open>guarded @audit\<close> of a field declared as the README's \<open>secret\<close> is, whose handler throws.
\<close>

definition auditInfo :: info where
  "auditInfo = \<lparr>field_name = ''guarded'', fieldNodes = [\<lparr>directives = [auditNode]\<rparr>],
                 variableValues = []\<rparr>"

definition stoppedInfo :: info where
  "stoppedInfo = \<lparr>field_name = ''stopped'', fieldNodes = [\<lparr>directives = [stopNode, upperNode]\<rparr>],
                   variableValues = []\<rparr>"

text \<open>
  Directive tables of the README that lack one handler: the one of \<open>whatever\<close>, which the
  field \<open>secret\<close> is declared with, and the one of \<open>upper\<close>, which the query uses.
\<close>

definition withoutWhatever :: "string \<Rightarrow> directive_function option" where
  "withoutWhatever = plainObject [''role'' \<mapsto> roleDirective, ''upper'' \<mapsto> upperDirective]"

definition withoutUpper :: "string \<Rightarrow> directive_function option" where
  "withoutUpper = plainObject [''role'' \<mapsto> roleDirective, ''whatever'' \<mapsto> whateverDirective]"

text \<open>
  A schema with \<open>directive @upper on FIELD\<close> and \<open>type Note { title: String body: String }\<close>,
  both fields of a type that admits \<open>null\<close>, served with no handlers and with the directive table
  \<open>{}\<close>; a note, and the two fields of the query \<open>title @upper body\<close>.
\<close>

definition noteSchema :: schema where
  "noteSchema = \<lparr>typeMap =
      [(''Note'', \<lparr>kind = ObjectType, type_fields = [(''title'', plainField), (''body'', plainField)]\<rparr>),
       (''Query'', \<lparr>kind = ObjectType, type_fields = [(''note'', plainField)]\<rparr>),
       (''String'', \<lparr>kind = ScalarType, type_fields = []\<rparr>)],
     directive_defs =
       (''upper'', \<lparr>locations = [FIELD], directive_args = []\<rparr>) # drop 3 (directive_defs readmeSchema)\<rparr>"

definition noteValue :: val where
  "noteValue = VObj [(''title'', VStr ''abc''), (''body'', VStr ''text'')]"

definition titleInfo :: info where
  "titleInfo = \<lparr>field_name = ''title'', fieldNodes = [\<lparr>directives = [upperNode]\<rparr>],
                 variableValues = []\<rparr>"

definition bodyInfo :: info where
  "bodyInfo = \<lparr>field_name = ''body'', fieldNodes = [\<lparr>directives = []\<rparr>], variableValues = []\<rparr>"

text \<open>
  A schema with \<open>directive @toString on FIELD_DEFINITION\<close> and the field
  \<open>label: String @toString\<close>, served with no handlers and with the directive table \<open>{}\<close>,
  which registers no handler; the root value and the query \<open>label\<close>.
\<close>

definition toStringNode :: directive_node where
  "toStringNode = \<lparr>name_value = ''toString'', arguments = []\<rparr>"

definition labelField :: gfield where
  "labelField = \<lparr>astNode = \<lparr>directives = [toStringNode]\<rparr>, resolve = None\<rparr>"

definition labelSchema :: schema where
  "labelSchema = \<lparr>typeMap =
      [(''Query'', \<lparr>kind = ObjectType, type_fields = [(''label'', labelField)]\<rparr>),
       (''String'', \<lparr>kind = ScalarType, type_fields = []\<rparr>)],
     directive_defs =
       (''toString'', \<lparr>locations = [FIELD_DEFINITION], directive_args = []\<rparr>)
         # drop 3 (directive_defs readmeSchema)\<rparr>"

definition labelled :: val where
  "labelled = VObj [(''label'', VStr ''abc'')]"

definition labelInfo :: info where
  "labelInfo = \<lparr>field_name = ''label'', fieldNodes = [\<lparr>directives = []\<rparr>], variableValues = []\<rparr>"

text \<open>
  The field \<open>secret\<close> selected twice and merged, \<open>secret @upper\<close> first and \<open>secret @nope\<close>
  second.
\<close>

definition mergedInfo :: info where
  "mergedInfo = \<lparr>field_name = ''secret'',
                  fieldNodes = [\<lparr>directives = [upperNode]\<rparr>, \<lparr>directives = [nopeNode]\<rparr>],
                  variableValues = []\<rparr>"

text \<open>
  A field and a query that carry built-in directives only, a directive table with a handler
  under \<open>skip\<close>, and the schema of the README without the declarations of the built-in
  directives.
\<close>

definition deprecatedField :: gfield where
  "deprecatedField = \<lparr>astNode = \<lparr>directives = [\<lparr>name_value = ''deprecated'', arguments = []\<rparr>]\<rparr>,
                       resolve = None\<rparr>"

definition skipInfo :: info where
  "skipInfo = \<lparr>field_name = ''name'',
                fieldNodes = [\<lparr>directives =
                   [\<lparr>name_value = ''skip'', arguments = [(''if'', Literal (VBool False))]\<rparr>]\<rparr>],
                variableValues = []\<rparr>"

definition skipDirectives :: "string \<Rightarrow> directive_function option" where
  "skipDirectives =
     plainObject [''role'' \<mapsto> roleDirective, ''whatever'' \<mapsto> whateverDirective,
                  ''upper'' \<mapsto> upperDirective, ''skip'' \<mapsto> stopDirective]"

definition bareSchema :: schema where
  "bareSchema = readmeSchema\<lparr>directive_defs := take 3 (directive_defs readmeSchema)\<rparr>"

section \<open>Facts about composition\<close>

lemmas example_defs =
  plainField_def whateverNode_def roleNode_def upperNode_def secretField_def readmeSchema_def
  settle_def deref_def roleDirective_def whateverDirective_def upperDirective_def
  readmeDirectives_def person_def contextValue_def readmeState_def secretInfo_def
  fullname_def getPerson_def readmeHandlers_def push_def recordingDirective_def
  recordingHandler_def recordingDirectives_def recordingHandlers_def listState_def
  fullnameInfo_def stopDirective_def recoverDirective_def auditDirective_def auditNode_def
  auditInfo_def boom_def stopNode_def
  recoverNode_def nopeNode_def stoppedField_def riskyField_def guardedField_def
  demoSchema_def demoDirectives_def demoHandlers_def riskyInfo_def stoppedInfo_def
  withoutWhatever_def withoutUpper_def noteSchema_def noteValue_def titleInfo_def bodyInfo_def
  toStringNode_def labelField_def labelSchema_def labelled_def labelInfo_def
  mergedInfo_def deprecatedField_def skipInfo_def skipDirectives_def bareSchema_def

lemmas model_defs =
  property_def getDirective_def getType_def argumentValue_def getDirectiveValues_def
  objectPrototype_def plainObject_def getDirectiveInfo_def
  filterCustomDirectives_def BUILT_IN_DIRECTIVES_def executionStep_def fieldStep_def
  callDirective_def callHandler_def getFieldResolver_def defaultFieldResolver_def
  createAsyncResolver_def createFieldExecutionResolver_def createFieldResolver_def
  installResolvers_def addDirectiveResolveFunctionsToSchema_def forEachField_def
  startsWith_def getFields_def buildSchemaWithResolvers_def executeField_def graphqlField_def
  resolverOf_def Let_def

lemma reduce_cong:
  "(\<And>a x. x \<in> set xs \<Longrightarrow> f a x = g a x) \<Longrightarrow> reduce f a xs = reduce g a xs"
  by (induction xs arbitrary: a) (auto split: sum.splits)

lemma reduce_append:
  "reduce f a (xs @ ys) = (case reduce f a xs of Inl e \<Rightarrow> Inl e | Inr b \<Rightarrow> reduce f b ys)"
  by (induction xs arbitrary: a) (auto split: sum.splits)



lemma resolverOf_Inr: "x = Inr r \<Longrightarrow> resolverOf x = r"
  by (simp add: resolverOf_def)

lemma createAsyncResolver_eq: "createAsyncResolver field = getFieldResolver field"
  by (simp add: createAsyncResolver_def)

lemma getFieldResolver_update: "getFieldResolver (field\<lparr>resolve := Some r\<rparr>) = r"
  by (simp add: getFieldResolver_def)

lemma getFieldResolver_astNode: "getFieldResolver (field\<lparr>astNode := n\<rparr>) = getFieldResolver field"
  by (simp add: getFieldResolver_def)

lemma filterCustomDirectives_append:
  "filterCustomDirectives (xs @ ys) = filterCustomDirectives xs @ filterCustomDirectives ys"
  by (simp add: filterCustomDirectives_def)

lemma filterCustomDirectives_Cons:
  "name_value d \<notin> set BUILT_IN_DIRECTIVES \<Longrightarrow>
   filterCustomDirectives (d # ys) = d # filterCustomDirectives ys"
  by (simp add: filterCustomDirectives_def)

lemma custom_not_built_in:
  "d \<in> set (filterCustomDirectives ds) \<Longrightarrow> name_value d \<notin> set BUILT_IN_DIRECTIVES"
  by (simp add: filterCustomDirectives_def)

lemma filterCustomDirectives_built_in:
  "(\<forall>d \<in> set ds. name_value d \<in> set BUILT_IN_DIRECTIVES) \<Longrightarrow> filterCustomDirectives ds = []"
  by (simp add: filterCustomDirectives_def)

text \<open>The declaration-site chain is the fold over the custom directives from the field's own
  resolver, also when there are none.\<close>

lemma createFieldExecutionResolver_reduce:
  "createFieldExecutionResolver field rm schema
     = reduce (executionStep rm schema) (getFieldResolver field)
         (filterCustomDirectives (directives (astNode field)))"
  by (simp add: createFieldExecutionResolver_def Let_def createAsyncResolver_eq)

lemma createFieldResolver_node:
  "fieldNodes info = node # rest \<Longrightarrow>
   createFieldResolver field rm schema source args context info
     = (case reduce (fieldStep rm schema source args context info) (getFieldResolver field)
               (filterCustomDirectives (directives node)) of
          Inl e \<Rightarrow> (\<lambda>s. (Inl e, s))
        | Inr fieldResolver \<Rightarrow> fieldResolver source args context info)"
  by (simp add: createFieldResolver_def Let_def createAsyncResolver_eq)

lemma createFieldResolver_no_node:
  "fieldNodes info = [] \<Longrightarrow>
   snd (createFieldResolver field rm schema source args context info s) = s"
  by (simp add: createFieldResolver_def Let_def)

lemma installResolvers_Inr:
  assumes "installResolvers rm schema field = Inr installed"
  obtains r where "createFieldExecutionResolver field rm schema = Inr r"
    and "getFieldResolver installed = createFieldResolver (field\<lparr>resolve := Some r\<rparr>) rm schema"
  using assms
  by (auto simp: installResolvers_def Let_def getFieldResolver_def split: sum.splits)

lemma executionStep_Inr:
  assumes "executionStep rm schema k d = Inr r"
  obtains di where "getDirectiveInfo d rm schema FIELD_DEFINITION None = Inr di"
    and "r = (\<lambda>source args context info.
            callDirective FIELD_DEFINITION (name_value d) (di_resolver di)
              (k source args context info) source (di_args di) context info args)"
  using assms by (auto simp: executionStep_def split: sum.splits)


lemma fieldStep_Inl:
  "getDirectiveInfo d rm schema FIELD (Some (variableValues info)) = Inl e \<Longrightarrow>
   fieldStep rm schema source args context info A d = Inl e"
  by (simp add: fieldStep_def)

lemma fieldStep_Inr:
  "getDirectiveInfo d rm schema FIELD (Some (variableValues info)) = Inr di \<Longrightarrow>
   fieldStep rm schema source args context info A d
     = Inr (\<lambda>_ _ _ _. callDirective FIELD (name_value d) (di_resolver di)
                  (A source args context info) source (di_args di) context info args)"
  by (simp add: fieldStep_def)


lemma getDirectiveInfo_resolver:
  "getDirectiveInfo d rm schema location variables = Inr di \<Longrightarrow> rm (name_value d) = Some (di_resolver di)"
  by (auto simp: getDirectiveInfo_def Let_def split: option.splits if_splits)

lemma calls_getFieldResolver:
  "resolve field = map_option callHandler base \<Longrightarrow>
   calls (snd (getFieldResolver field source args context info t)) = calls t @ [CallResolver context]"
  by (cases base)
     (auto simp: getFieldResolver_def defaultFieldResolver_def callHandler_def split: prod.splits)

section \<open>Facts about one run of a handler\<close>

lemma calls_atResolve: "calls (atResolve p s) = calls s"
  by (induction p arbitrary: s) simp_all

lemma exec_no_resolve:
  "resolves p k s = 0 \<Longrightarrow> calls (snd (exec p k s)) = calls s"
  by (induction p arbitrary: s) (auto split: prod.splits)

lemma exec_no_resolve_any:
  "resolves p k s = 0 \<Longrightarrow> exec p k s = exec p k' s"
  by (induction p arbitrary: s) (auto split: prod.splits)

lemma exec_one_resolve:
  "resolves p k s = 1 \<Longrightarrow> calls (snd (exec p k s)) = calls (snd (k (atResolve p s)))"
proof (induction p arbitrary: s)
  case (Resolve f s)
  obtain r s' where ks: "k s = (r, s')" by (cases "k s")
  with Resolve.prems have "resolves (f r) k s' = 0" by simp
  then have "calls (snd (exec (f r) k s')) = calls s'" by (rule exec_no_resolve)
  with ks show ?case by simp
qed simp_all

lemma exec_appends:
  assumes Q0: "Q []" and QA: "\<And>a b. Q a \<Longrightarrow> Q b \<Longrightarrow> Q (a @ b)"
    and k: "appends Q k"
  shows "\<exists>evs. calls (snd (exec p k s)) = calls s @ evs \<and> Q evs"
proof (induction p arbitrary: s)
  case (Return v s)
  show ?case using Q0 by simp
next
  case (Throw e s)
  show ?case using Q0 by simp
next
  case (Resolve f s)
  obtain r s' where ks: "k s = (r, s')" by (cases "k s")
  from k obtain e1 where e1: "calls s' = calls s @ e1" "Q e1"
    unfolding appends_def using ks by (metis snd_conv)
  have "\<exists>e2. calls (snd (exec (f r) k s')) = calls s' @ e2 \<and> Q e2"
    by (rule Resolve.IH) (rule rangeI)
  then obtain e2 where e2: "calls (snd (exec (f r) k s')) = calls s' @ e2" "Q e2"
    by blast
  show ?case using ks e1 e2 QA[OF e1(2) e2(2)] by auto
next
  case (Read f s)
  have "\<exists>evs. calls (snd (exec (f (heap s)) k s)) = calls s @ evs \<and> Q evs"
    by (rule Read.IH) (rule rangeI)
  then show ?case by simp
next
  case (Write h p s)
  from Write.IH[of "s\<lparr>heap := h\<rparr>"] show ?case by simp
qed

lemma callDirective_appends:
  assumes Q0: "Q []" and QA: "\<And>a b. Q a \<Longrightarrow> Q b \<Longrightarrow> Q (a @ b)"
    and k: "appends Q k"
  shows "\<exists>evs. calls (snd (callDirective location name fn k source dargs context info args s))
                 = calls s @ CallDirective location name context # evs \<and> Q evs"
  using exec_appends[OF Q0 QA k, of "fn source dargs context info args"
          "s\<lparr>calls := calls s @ [CallDirective location name context]\<rparr>"]
  by (auto simp: callDirective_def)

lemma getFieldResolver_appends:
  "resolve field = map_option callHandler base \<Longrightarrow> Q [CallResolver context] \<Longrightarrow>
   appends Q (getFieldResolver field source args context info)"
  unfolding appends_def using calls_getFieldResolver by blast

text \<open>What holds of the invocations of the base resolver and of every handler of a
  declaration-site chain, and is kept by appending, holds of what the chain records.\<close>

lemma declared_appends:
  assumes Q0: "Q []" and QA: "\<And>a b. Q a \<Longrightarrow> Q b \<Longrightarrow> Q (a @ b)"
    and base: "appends Q (base source args context info)"
  shows "reduce (executionStep rm schema) base ds = Inr r \<Longrightarrow>
         (\<And>d. d \<in> set ds \<Longrightarrow> Q [CallDirective FIELD_DEFINITION (name_value d) context]) \<Longrightarrow>
         appends Q (r source args context info)"
proof (induction ds arbitrary: r rule: rev_induct)
  case Nil
  then show ?case using base by simp
next
  case (snoc d ds)
  from snoc.prems(1) obtain k where k: "reduce (executionStep rm schema) base ds = Inr k"
    and step: "executionStep rm schema k d = Inr r"
    by (auto simp: reduce_append split: sum.splits)
  from step obtain di where di: "getDirectiveInfo d rm schema FIELD_DEFINITION None = Inr di"
    and r: "r = (\<lambda>source args context info.
            callDirective FIELD_DEFINITION (name_value d) (di_resolver di)
              (k source args context info) source (di_args di) context info args)"
    by (rule executionStep_Inr)
  have ki: "appends Q (k source args context info)"
    using k snoc.prems(2) by (intro snoc.IH) auto
  have Qd: "Q [CallDirective FIELD_DEFINITION (name_value d) context]"
    using snoc.prems(2) by simp
  show ?case
    unfolding appends_def
  proof
    fix t
    from callDirective_appends[OF Q0 QA ki] obtain evs where
      "calls (snd (r source args context info t))
         = calls t @ CallDirective FIELD_DEFINITION (name_value d) context # evs" "Q evs"
      unfolding r by blast
    then show "\<exists>evs. calls (snd (r source args context info t)) = calls t @ evs \<and> Q evs"
      using QA[OF Qd, of evs] by auto
  qed
qed

text \<open>The same for a usage-site chain, for a property that may grow with the directives.\<close>

lemma used_appends:
  assumes P0: "\<And>ds. P ds []" and PA: "\<And>ds a b. P ds a \<Longrightarrow> P ds b \<Longrightarrow> P ds (a @ b)"
    and step: "\<And>ds d evs. P ds evs \<Longrightarrow> P (ds @ [d]) (CallDirective FIELD (name_value d) context # evs)"
    and base: "appends (P []) (base source args context info)"
  shows "reduce (fieldStep rm schema source args context info) base ds = Inr r \<Longrightarrow>
         appends (P ds) (r source args context info)"
proof (induction ds arbitrary: r rule: rev_induct)
  case Nil
  then show ?case using base by simp
next
  case (snoc d ds)
  from snoc.prems(1) obtain k where
    k: "reduce (fieldStep rm schema source args context info) base ds = Inr k"
    and st: "fieldStep rm schema source args context info k d = Inr r"
    by (auto simp: reduce_append split: sum.splits)
  from st obtain di where
    di: "getDirectiveInfo d rm schema FIELD (Some (variableValues info)) = Inr di"
    and r: "r = (\<lambda>_ _ _ _.
            callDirective FIELD (name_value d) (di_resolver di)
              (k source args context info) source (di_args di) context info args)"
    by (auto simp: fieldStep_def split: sum.splits)
  have ki: "appends (P ds) (k source args context info)"
    using k by (rule snoc.IH)
  show ?case
    unfolding appends_def
  proof
    fix t
    from callDirective_appends[OF P0 PA ki] obtain evs where
      "calls (snd (r source args context info t))
         = calls t @ CallDirective FIELD (name_value d) context # evs" "P ds evs"
      unfolding r by blast
    then show "\<exists>evs. calls (snd (r source args context info t)) = calls t @ evs \<and> P (ds @ [d]) evs"
      using step by blast
  qed
qed

section \<open>Order of invocation\<close>

lemma chain_order:
  assumes base: "\<And>t. calls (snd (base source args context info t)) = calls t @ [CallResolver context]"
  shows "reduce (executionStep rm schema) base ds = Inr r \<Longrightarrow>
         everyHandlerContinues rm schema base (rev ds) source args context info s \<Longrightarrow>
         calls (snd (r source args context info s))
           = calls s @ map (\<lambda>d. CallDirective FIELD_DEFINITION (name_value d) context) (rev ds)
               @ [CallResolver context]"
proof (induction ds arbitrary: r s rule: rev_induct)
  case Nil
  then show ?case using base by simp
next
  case (snoc d ds)
  from snoc.prems(1) obtain k where k: "reduce (executionStep rm schema) base ds = Inr k"
    and step: "executionStep rm schema k d = Inr r"
    by (auto simp: reduce_append split: sum.splits)
  from step obtain di where di: "getDirectiveInfo d rm schema FIELD_DEFINITION None = Inr di"
    and r: "r = (\<lambda>source args context info.
            callDirective FIELD_DEFINITION (name_value d) (di_resolver di)
              (k source args context info) source (di_args di) context info args)"
    by (rule executionStep_Inr)
  define p where "p = di_resolver di source (di_args di) context info args"
  define s1 where "s1 = s\<lparr>calls := calls s @ [CallDirective FIELD_DEFINITION (name_value d) context]\<rparr>"
  from snoc.prems(2) have once: "resolves p (k source args context info) s1 = 1"
    and inner: "everyHandlerContinues rm schema base (rev ds) source args context info (atResolve p s1)"
    by (simp_all add: di k p_def s1_def Let_def)
  have "calls (snd (r source args context info s)) = calls (snd (exec p (k source args context info) s1))"
    by (simp add: r callDirective_def p_def s1_def)
  also have "\<dots> = calls (snd (k source args context info (atResolve p s1)))"
    using once by (rule exec_one_resolve)
  also have "\<dots> = calls (atResolve p s1)
                @ map (\<lambda>d. CallDirective FIELD_DEFINITION (name_value d) context) (rev ds)
                @ [CallResolver context]"
    using k inner by (rule snoc.IH)
  finally show ?case by (simp add: calls_atResolve s1_def)
qed

text \<open>
  C1. Let a field have the custom declaration-site directives \<open>d1, ..., dn\<close> in source order,
  and the resolver of the resolver table (or the default one) under them. On every
  invocation of the composed resolver on which every handler calls its continuation, once,
  the invocations made are those of \<open>dn, ..., d1\<close> in this order and then that of the base
  resolver, each with the context value of the invocation: the last declared directive is
  entered first, the first declared one last before the base resolver.
\<close>

theorem declaration_site_order:
  assumes "createFieldExecutionResolver field resolverMap schema = Inr r"
    and "resolve field = map_option callHandler base"
    and "everyHandlerContinues resolverMap schema (getFieldResolver field)
           (rev (filterCustomDirectives (directives (astNode field)))) source args context info s"
  shows "calls (snd (r source args context info s))
           = calls s
             @ map (\<lambda>d. CallDirective FIELD_DEFINITION (name_value d) context)
                 (rev (filterCustomDirectives (directives (astNode field))))
             @ [CallResolver context]"
  using assms(1,3) calls_getFieldResolver[OF assms(2)]
  unfolding createFieldExecutionResolver_reduce
  by (rule chain_order[rotated])

theorem declaration_site_order_witness:
  "calls (snd (resolverOf (createFieldExecutionResolver secretField readmeDirectives readmeSchema)
                 person (VObj []) contextValue secretInfo readmeState))
     = [CallDirective FIELD_DEFINITION ''role'' (VRef 0),
        CallDirective FIELD_DEFINITION ''whatever'' (VRef 0),
        CallResolver (VRef 0)]"
proof -
  let ?r = "resolverOf (createFieldExecutionResolver secretField readmeDirectives readmeSchema)"
  have r: "createFieldExecutionResolver secretField readmeDirectives readmeSchema = Inr ?r"
    by (simp add: model_defs example_defs)
  have b: "resolve secretField = map_option callHandler None"
    by (simp add: secretField_def)
  have c: "everyHandlerContinues readmeDirectives readmeSchema (getFieldResolver secretField)
             (rev (filterCustomDirectives (directives (astNode secretField))))
             person (VObj []) contextValue secretInfo readmeState"
    by (simp add: model_defs example_defs)
  have d: "rev (filterCustomDirectives (directives (astNode secretField))) = [roleNode, whateverNode]"
    by (simp add: secretField_def filterCustomDirectives_def BUILT_IN_DIRECTIVES_def
          whateverNode_def roleNode_def)
  have n: "name_value roleNode = ''role''" "name_value whateverNode = ''whatever''"
    by (simp_all add: whateverNode_def roleNode_def)
  show ?thesis
    using declaration_site_order[OF r b c]
    by (simp only: d) (simp add: n readmeState_def contextValue_def)
qed

section \<open>Directive discovery\<close>

text \<open>
  Discovery in terms of the lookup \<open>resolverMap[name]\<close>: the three checks in the order of the
  source, and then the handler that the lookup gives with the argument values of the usage.
\<close>

lemma getDirectiveInfo_cases:
  "(getDirective schema (name_value directive) = None \<longrightarrow>
      getDirectiveInfo directive resolverMap schema location variables
        = Inl (UndeclaredDirective (name_value directive)))
   \<and> (getDirective schema (name_value directive) = Some Directive
        \<and> location \<notin> set (locations Directive) \<longrightarrow>
      getDirectiveInfo directive resolverMap schema location variables
        = Inl (InvalidDirectiveLocation (name_value directive) location))
   \<and> (getDirective schema (name_value directive) = Some Directive
        \<and> location \<in> set (locations Directive)
        \<and> resolverMap (name_value directive) = None \<longrightarrow>
      getDirectiveInfo directive resolverMap schema location variables
        = Inl (MissingDirectiveHandler (name_value directive)))
   \<and> (getDirective schema (name_value directive) = Some Directive
        \<and> location \<in> set (locations Directive)
        \<and> resolverMap (name_value directive) = Some handler \<longrightarrow>
      getDirectiveInfo directive resolverMap schema location variables
        = Inr \<lparr>di_args = getDirectiveValues Directive directive variables, di_resolver = handler\<rparr>)"
  by (simp add: getDirectiveInfo_def)

text \<open>
  C5. The code does not do what the claim says of a directive without a registered handler
  when its name is one that every object inherits a member under. With
  \<open>directive @toString on FIELD_DEFINITION\<close>, the field \<open>label: String @toString\<close> and the
  directive table \<open>{}\<close>, in which no handler is registered, discovery does not fail with
  \<open>MissingDirectiveHandler\<close>: \<open>resolverMap[name]\<close> gives \<open>Object.prototype.toString\<close>, and
  discovery returns it as the handler. The wiring succeeds, and the query \<open>label\<close> on a root
  value whose label is \<open>"abc"\<close> gives \<open>"[object Object]"\<close> with the base resolver never
  invoked. Under a name that is not inherited the same table has nothing, and discovery
  fails as the claim says.
\<close>

theorem inherited_member_taken_for_handler:
  "getDirectiveInfo toStringNode (plainObject Map.empty) labelSchema FIELD_DEFINITION None
     = Inr \<lparr>di_args = VObj [],
            di_resolver = (\<lambda>source dargs context info args. Return (VStr ''[object Object]''))\<rparr>
   \<and> graphqlField [] labelSchema (Some (Handlers (plainObject Map.empty)))
        ''Query'' ''label'' labelled (VObj []) contextValue labelInfo readmeState
     = (Inr (VStr ''[object Object]''),
        readmeState\<lparr>calls := [CallDirective FIELD_DEFINITION ''toString'' contextValue]\<rparr>)
   \<and> getDirectiveInfo upperNode (plainObject Map.empty) noteSchema FIELD None
     = Inl (MissingDirectiveHandler ''upper'')"
  by (simp add: model_defs example_defs)













section \<open>Built-in directives and merged fields\<close>

lemma getDirectiveInfo_agree:
  assumes "name_value d \<notin> set BUILT_IN_DIRECTIVES"
    and "\<And>n. n \<notin> set BUILT_IN_DIRECTIVES \<Longrightarrow> rm' n = rm n \<and> getDirective schema' n = getDirective schema n"
  shows "getDirectiveInfo d rm' schema' location variables = getDirectiveInfo d rm schema location variables"
  using assms(2)[OF assms(1)] by (auto simp: getDirectiveInfo_def Let_def split: option.splits)

text \<open>
  C9. The directives \<open>skip\<close>, \<open>include\<close> and \<open>deprecated\<close> are dropped from what discovery reads, at
  both sites, before anything is composed. What composition gives does not depend on whether
  the schema declares them or on what the directive table holds under their names: it is the
  same for any other table and schema that agree on every other name, so they are neither
  validated nor looked up, and no handler under their names can be part of a chain. A field
  whose declaration carries built-in directives only gets the chain of the same field with
  no directives, its own resolver; and a query occurrence that carries built-in directives
  only invokes the installed resolver directly.
\<close>

theorem built_in_directives_ignored:
  assumes agree: "\<And>n. n \<notin> set BUILT_IN_DIRECTIVES \<Longrightarrow>
                    resolverMap' n = resolverMap n \<and> getDirective schema' n = getDirective schema n"
  shows "createFieldExecutionResolver field resolverMap' schema'
           = createFieldExecutionResolver field resolverMap schema
       \<and> createFieldResolver field resolverMap' schema' = createFieldResolver field resolverMap schema
       \<and> ((\<forall>d \<in> set (directives (astNode field)). name_value d \<in> set BUILT_IN_DIRECTIVES) \<longrightarrow>
            createFieldExecutionResolver field resolverMap schema = Inr (getFieldResolver field)
            \<and> createFieldExecutionResolver field resolverMap schema
                = createFieldExecutionResolver (field\<lparr>astNode := \<lparr>directives = []\<rparr>\<rparr>) resolverMap schema)
       \<and> (\<forall>node rest. fieldNodes info = node # rest
              \<and> (\<forall>d \<in> set (directives node). name_value d \<in> set BUILT_IN_DIRECTIVES) \<longrightarrow>
            createFieldResolver field resolverMap schema source args context info
              = getFieldResolver field source args context info)"
proof -
  have step: "executionStep resolverMap' schema' a d = executionStep resolverMap schema a d"
    if "d \<in> set (filterCustomDirectives ds)" for a d ds
    using getDirectiveInfo_agree[OF custom_not_built_in[OF that] agree]
    by (simp add: executionStep_def)
  have fstep: "fieldStep resolverMap' schema' so ar co i a d = fieldStep resolverMap schema so ar co i a d"
    if "d \<in> set (filterCustomDirectives ds)" for a d ds so ar co i
    using getDirectiveInfo_agree[OF custom_not_built_in[OF that] agree]
    by (simp add: fieldStep_def)
  have 1: "createFieldExecutionResolver field resolverMap' schema'
             = createFieldExecutionResolver field resolverMap schema"
    unfolding createFieldExecutionResolver_reduce
    by (rule reduce_cong) (rule step)
  have 2: "createFieldResolver field resolverMap' schema' = createFieldResolver field resolverMap schema"
  proof (intro ext)
    fix so ar co i s
    show "createFieldResolver field resolverMap' schema' so ar co i s
            = createFieldResolver field resolverMap schema so ar co i s"
    proof (cases "fieldNodes i")
      case Nil
      then show ?thesis by (simp add: createFieldResolver_def)
    next
      case (Cons node rest)
      have "reduce (fieldStep resolverMap' schema' so ar co i) (getFieldResolver field)
              (filterCustomDirectives (directives node))
            = reduce (fieldStep resolverMap schema so ar co i) (getFieldResolver field)
              (filterCustomDirectives (directives node))"
        by (rule reduce_cong) (rule fstep)
      then show ?thesis by (simp add: createFieldResolver_node[OF Cons])
    qed
  qed
  have 3: "createFieldExecutionResolver field resolverMap schema = Inr (getFieldResolver field)
            \<and> createFieldExecutionResolver field resolverMap schema
                = createFieldExecutionResolver (field\<lparr>astNode := \<lparr>directives = []\<rparr>\<rparr>) resolverMap schema"
    if "\<forall>d \<in> set (directives (astNode field)). name_value d \<in> set BUILT_IN_DIRECTIVES"
    using filterCustomDirectives_built_in[OF that]
    by (simp add: createFieldExecutionResolver_reduce getFieldResolver_def filterCustomDirectives_def)
  have 4: "createFieldResolver field resolverMap schema source args context info
              = getFieldResolver field source args context info"
    if "fieldNodes info = node # rest"
      "\<forall>d \<in> set (directives node). name_value d \<in> set BUILT_IN_DIRECTIVES" for node rest
    using filterCustomDirectives_built_in[OF that(2)]
    by (simp add: createFieldResolver_node[OF that(1)])
  show ?thesis using 1 2 3 4 by blast
qed

theorem built_in_directives_ignored_witness:
  "createFieldExecutionResolver deprecatedField skipDirectives bareSchema
     = Inr (getFieldResolver deprecatedField)
   \<and> createFieldResolver plainField skipDirectives bareSchema person (VObj []) contextValue skipInfo
     = getFieldResolver plainField person (VObj []) contextValue skipInfo"
proof -
  have agree: "skipDirectives n = readmeDirectives n
                 \<and> getDirective bareSchema n = getDirective readmeSchema n"
    if "n \<notin> set BUILT_IN_DIRECTIVES" for n
    using that by (simp add: model_defs example_defs)
  have d: "\<forall>d \<in> set (directives (astNode deprecatedField)). name_value d \<in> set BUILT_IN_DIRECTIVES"
    by (simp add: model_defs example_defs)
  have n: "fieldNodes skipInfo
             = \<lparr>directives = [\<lparr>name_value = ''skip'', arguments = [(''if'', Literal (VBool False))]\<rparr>]\<rparr> # []
           \<and> (\<forall>d \<in> set (directives
                  \<lparr>directives = [\<lparr>name_value = ''skip'', arguments = [(''if'', Literal (VBool False))]\<rparr>]\<rparr>).
                 name_value d \<in> set BUILT_IN_DIRECTIVES)"
    by (simp add: model_defs example_defs)
  from built_in_directives_ignored
         [where resolverMap' = skipDirectives and resolverMap = readmeDirectives
            and schema' = bareSchema and schema = readmeSchema and field = deprecatedField,
          OF agree] d
  have 1: "createFieldExecutionResolver deprecatedField skipDirectives bareSchema
             = Inr (getFieldResolver deprecatedField)"
    by simp
  from built_in_directives_ignored
         [where resolverMap' = skipDirectives and resolverMap = readmeDirectives
            and schema' = bareSchema and schema = readmeSchema and field = plainField
            and info = skipInfo,
          OF agree] n
  have 2: "createFieldResolver plainField skipDirectives bareSchema person (VObj []) contextValue skipInfo
             = getFieldResolver plainField person (VObj []) contextValue skipInfo"
    by metis
  from 1 2 show ?thesis by simp
qed

lemma reduce_first_node:
  assumes h: "\<And>d h dargs. d \<in> set ds \<Longrightarrow> rm (name_value d) = Some h \<Longrightarrow>
                h source dargs context info args = h source dargs context info' args"
    and vars: "variableValues info' = variableValues info"
  shows "A source args context info = B source args context info' \<Longrightarrow>
         (case (reduce (fieldStep rm schema source args context info) A ds,
                reduce (fieldStep rm schema source args context info') B ds) of
            (Inl e, Inl e') \<Rightarrow> e = e'
          | (Inr r, Inr r') \<Rightarrow> r source args context info = r' source args context info'
          | _ \<Rightarrow> False)"
  using h
proof (induction ds arbitrary: A B)
  case Nil
  then show ?case by simp
next
  case (Cons d ds)
  show ?case
  proof (cases "getDirectiveInfo d rm schema FIELD (Some (variableValues info))")
    case (Inl e)
    then have "getDirectiveInfo d rm schema FIELD (Some (variableValues info')) = Inl e"
      by (simp add: vars)
    then show ?thesis by (simp add: fieldStep_Inl Inl)
  next
    case (Inr di)
    then have Inr': "getDirectiveInfo d rm schema FIELD (Some (variableValues info')) = Inr di"
      by (simp add: vars)
    from Inr have "rm (name_value d) = Some (di_resolver di)"
      by (auto simp: getDirectiveInfo_def Let_def split: option.splits if_splits)
    then have eq: "di_resolver di source (di_args di) context info args
                 = di_resolver di source (di_args di) context info' args"
      using Cons.prems(2)[of d] by simp
    let ?A' = "\<lambda>_ _ _ _. callDirective FIELD (name_value d) (di_resolver di)
                  (A source args context info) source (di_args di) context info args"
    let ?B' = "\<lambda>_ _ _ _. callDirective FIELD (name_value d) (di_resolver di)
                  (B source args context info') source (di_args di) context info' args"
    have "?A' source args context info = ?B' source args context info'"
      using Cons.prems(1) eq by (simp add: callDirective_def)
    then have "(case (reduce (fieldStep rm schema source args context info) ?A' ds,
                reduce (fieldStep rm schema source args context info') ?B' ds) of
            (Inl e, Inl e') \<Rightarrow> e = e'
          | (Inr r, Inr r') \<Rightarrow> r source args context info = r' source args context info'
          | _ \<Rightarrow> False)"
      using Cons.prems(2) by (intro Cons.IH) auto
    then show ?thesis by (simp add: fieldStep_Inr[OF Inr] fieldStep_Inr[OF Inr'])
  qed
qed

text \<open>
  C10. Usage-site discovery reads the directives of the first field node only. When a
  selection merges several occurrences of a field, the invocation is the one for the first
  occurrence alone: the directives of the later occurrences are neither validated nor
  composed. (The handlers and the field's resolver are given \<open>info\<close> itself, so this is said
  of handlers and a resolver that do not themselves look at the later nodes.)
\<close>

theorem only_first_field_node:
  assumes nodes: "fieldNodes info = node # rest"
    and h: "\<And>d h dargs. d \<in> set (directives node) \<Longrightarrow> resolverMap (name_value d) = Some h \<Longrightarrow>
                h source dargs context info args
                  = h source dargs context (info\<lparr>fieldNodes := [node]\<rparr>) args"
    and base: "getFieldResolver field source args context info
                 = getFieldResolver field source args context (info\<lparr>fieldNodes := [node]\<rparr>)"
  shows "createFieldResolver field resolverMap schema source args context info
           = createFieldResolver field resolverMap schema source args context (info\<lparr>fieldNodes := [node]\<rparr>)"
proof -
  let ?info' = "info\<lparr>fieldNodes := [node]\<rparr>"
  have n': "fieldNodes ?info' = node # []" by simp
  have "(case (reduce (fieldStep resolverMap schema source args context info) (getFieldResolver field)
                 (filterCustomDirectives (directives node)),
                reduce (fieldStep resolverMap schema source args context ?info') (getFieldResolver field)
                 (filterCustomDirectives (directives node))) of
            (Inl e, Inl e') \<Rightarrow> e = e'
          | (Inr r, Inr r') \<Rightarrow> r source args context info = r' source args context ?info'
          | _ \<Rightarrow> False)"
    using base
    by (rule reduce_first_node[rotated 2]) (auto intro: h simp: filterCustomDirectives_def)
  then show ?thesis
    by (simp add: createFieldResolver_node[OF nodes] createFieldResolver_node[OF n']
          split: sum.splits)
qed

theorem only_first_field_node_witness:
  "createFieldResolver secretField readmeDirectives readmeSchema person (VObj []) contextValue
       mergedInfo readmeState
     = (Inr (VStr ''123456789ABCD''),
        readmeState\<lparr>calls := [CallDirective FIELD ''upper'' contextValue, CallResolver contextValue]\<rparr>)"
proof -
  let ?node = "\<lparr>directives = [upperNode]\<rparr>"
  have nodes: "fieldNodes mergedInfo = ?node # [\<lparr>directives = [nopeNode]\<rparr>]"
    by (simp add: mergedInfo_def)
  have h: "h person dargs contextValue mergedInfo (VObj [])
             = h person dargs contextValue (mergedInfo\<lparr>fieldNodes := [?node]\<rparr>) (VObj [])"
    if "d \<in> set (directives ?node)" "readmeDirectives (name_value d) = Some h" for d h dargs
    using that by (auto simp: readmeDirectives_def plainObject_def upperNode_def upperDirective_def)
  have base: "getFieldResolver secretField person (VObj []) contextValue mergedInfo
                = getFieldResolver secretField person (VObj []) contextValue
                    (mergedInfo\<lparr>fieldNodes := [?node]\<rparr>)"
    by (simp add: getFieldResolver_def secretField_def defaultFieldResolver_def)
  have "createFieldResolver secretField readmeDirectives readmeSchema person (VObj []) contextValue
            mergedInfo
          = createFieldResolver secretField readmeDirectives readmeSchema person (VObj []) contextValue
              (mergedInfo\<lparr>fieldNodes := [?node]\<rparr>)"
    using nodes h base by (rule only_first_field_node)
  then show ?thesis
    by (simp add: model_defs example_defs toUpperCase_def)
qed

section \<open>The two tiers\<close>

lemma precededBy_Nil: "precededBy context D []"
  by (simp add: precededBy_def)

lemma precededBy_append:
  assumes "precededBy context D a" "precededBy context D b"
  shows "precededBy context D (a @ b)"
  unfolding precededBy_def
proof (intro allI impI ballI)
  fix pre e post n
  assume eq: "a @ b = pre @ e # post" and e: "\<not> usageSite e" and n: "n \<in> D"
  from eq consider (left) us where "a = pre @ e # us" | (right) us where "pre = a @ us" "b = us @ e # post"
    by (auto simp: append_eq_append_conv2 append_eq_Cons_conv Cons_eq_append_conv)
  then show "CallDirective FIELD n context \<in> set pre"
  proof cases
    case left
    with assms(1) e n show ?thesis unfolding precededBy_def by blast
  next
    case right
    with assms(2) e n have "CallDirective FIELD n context \<in> set us" unfolding precededBy_def by blast
    with right show ?thesis by simp
  qed
qed

lemma precededBy_step:
  assumes "precededBy context (name_value ` set ds) evs"
  shows "precededBy context (name_value ` set (ds @ [d])) (CallDirective FIELD (name_value d) context # evs)"
  unfolding precededBy_def
proof (intro allI impI ballI)
  fix pre e post n
  assume eq: "CallDirective FIELD (name_value d) context # evs = pre @ e # post"
    and e: "\<not> usageSite e" and n: "n \<in> name_value ` set (ds @ [d])"
  from eq e obtain us where us: "pre = CallDirective FIELD (name_value d) context # us" "evs = us @ e # post"
    by (cases pre) auto
  show "CallDirective FIELD n context \<in> set pre"
  proof (cases "n = name_value d")
    case True
    then show ?thesis using us by simp
  next
    case False
    with n have "n \<in> name_value ` set ds" by auto
    with assms us e have "CallDirective FIELD n context \<in> set us" unfolding precededBy_def by blast
    then show ?thesis using us by simp
  qed
qed

lemma installed_precededBy:
  assumes inst: "installResolvers rm schema field = Inr installed"
    and base: "resolve field = map_option callHandler base"
    and nodes: "fieldNodes info = node # rest"
  shows "\<exists>evs. calls (snd (getFieldResolver installed source args context info s)) = calls s @ evs
           \<and> precededBy context (name_value ` set (filterCustomDirectives (directives node))) evs"
proof -
  from inst obtain r where r: "createFieldExecutionResolver field rm schema = Inr r"
    and g: "getFieldResolver installed = createFieldResolver (field\<lparr>resolve := Some r\<rparr>) rm schema"
    by (rule installResolvers_Inr)
  have "appends (\<lambda>_. True) (r source args context info)"
    using r unfolding createFieldExecutionResolver_reduce
    by (rule declared_appends[rotated 3]) (auto intro: getFieldResolver_appends[OF base])
  then have decl: "appends (precededBy context (name_value ` set [])) (r source args context info)"
    by (simp add: appends_def precededBy_def)
  show ?thesis
  proof (cases "reduce (fieldStep rm schema source args context info) r
                   (filterCustomDirectives (directives node))")
    case (Inl e)
    then show ?thesis
      by (simp add: g createFieldResolver_node[OF nodes] getFieldResolver_update precededBy_Nil)
  next
    case (Inr fr)
    have "appends (precededBy context (name_value ` set (filterCustomDirectives (directives node))))
            (fr source args context info)"
      by (rule used_appends[where P = "\<lambda>ds. precededBy context (name_value ` set ds)",
                 OF precededBy_Nil precededBy_append precededBy_step decl Inr])
    then show ?thesis
      by (simp add: g createFieldResolver_node[OF nodes] getFieldResolver_update Inr appends_def)
  qed
qed

text \<open>
  C2. On every invocation of the resolver installed on a field, in whatever the invocation
  records, an invocation of a declaration-site handler or of the base resolver comes only
  after every usage-site directive of the queried occurrence has had its handler invoked: the
  usage-site handlers are outside the declaration-site ones. For the README's field
  \<open>secret: String! @whatever @role(role: "ADMIN")\<close> queried as \<open>secret @upper\<close>, with the
  context role \<open>ADMIN\<close> and the person whose secret is \<open>123456789abcd\<close>, the handlers are invoked
  in the order \<open>upper\<close>, \<open>role\<close>, \<open>whatever\<close>, then the base resolver, and the field's value is
  \<open>123456789ABCD\<close>.
\<close>

theorem usage_site_outside_declaration_site:
  assumes inst: "installResolvers resolverMap schema field = Inr installed"
    and base: "resolve field = map_option callHandler base"
    and nodes: "fieldNodes info = node # rest"
    and run: "calls (snd (getFieldResolver installed source args context info s))
                = calls s @ pre @ e # post"
    and decl: "e = CallResolver c \<or> e = CallDirective FIELD_DEFINITION n c"
    and d: "d \<in> set (filterCustomDirectives (directives node))"
  shows "CallDirective FIELD (name_value d) context \<in> set pre
       \<and> graphqlField readmeHandlers readmeSchema (Some (Handlers readmeDirectives))
            ''Person'' ''secret'' person (VObj []) contextValue secretInfo readmeState
          = (Inr (VStr ''123456789ABCD''),
             readmeState\<lparr>calls := [CallDirective FIELD ''upper'' contextValue,
                                    CallDirective FIELD_DEFINITION ''role'' contextValue,
                                    CallDirective FIELD_DEFINITION ''whatever'' contextValue,
                                    CallResolver contextValue]\<rparr>)"
proof
  from installed_precededBy[OF inst base nodes, of source args "context" s] run
  have "precededBy context (name_value ` set (filterCustomDirectives (directives node))) (pre @ e # post)"
    by auto
  moreover from decl have "\<not> usageSite e" by auto
  ultimately show "CallDirective FIELD (name_value d) context \<in> set pre"
    using d unfolding precededBy_def by blast
next
  show "graphqlField readmeHandlers readmeSchema (Some (Handlers readmeDirectives))
            ''Person'' ''secret'' person (VObj []) contextValue secretInfo readmeState
          = (Inr (VStr ''123456789ABCD''),
             readmeState\<lparr>calls := [CallDirective FIELD ''upper'' contextValue,
                                    CallDirective FIELD_DEFINITION ''role'' contextValue,
                                    CallDirective FIELD_DEFINITION ''whatever'' contextValue,
                                    CallResolver contextValue]\<rparr>)"
    by (simp add: model_defs example_defs toUpperCase_def)
qed

theorem usage_site_outside_declaration_site_witness:
  "calls (snd (getFieldResolver (projr (installResolvers readmeDirectives readmeSchema secretField))
                 person (VObj []) contextValue secretInfo readmeState))
     = calls readmeState @ [CallDirective FIELD ''upper'' contextValue]
         @ CallDirective FIELD_DEFINITION ''role'' contextValue
           # [CallDirective FIELD_DEFINITION ''whatever'' contextValue, CallResolver contextValue]
   \<and> CallDirective FIELD (name_value upperNode) contextValue
       \<in> set [CallDirective FIELD ''upper'' contextValue]"
proof -
  have inst: "installResolvers readmeDirectives readmeSchema secretField
                = Inr (projr (installResolvers readmeDirectives readmeSchema secretField))"
    by (simp add: model_defs example_defs)
  have base: "resolve secretField = map_option callHandler None"
    by (simp add: secretField_def)
  have nodes: "fieldNodes secretInfo = \<lparr>directives = [upperNode]\<rparr> # []"
    by (simp add: secretInfo_def)
  have run: "calls (snd (getFieldResolver (projr (installResolvers readmeDirectives readmeSchema secretField))
                 person (VObj []) contextValue secretInfo readmeState))
     = calls readmeState @ [CallDirective FIELD ''upper'' contextValue]
         @ CallDirective FIELD_DEFINITION ''role'' contextValue
           # [CallDirective FIELD_DEFINITION ''whatever'' contextValue, CallResolver contextValue]"
    by (simp add: model_defs example_defs)
  have decl: "CallDirective FIELD_DEFINITION ''role'' contextValue = CallResolver contextValue
              \<or> CallDirective FIELD_DEFINITION ''role'' contextValue
                  = CallDirective FIELD_DEFINITION ''role'' contextValue"
    by simp
  have d: "upperNode \<in> set (filterCustomDirectives (directives \<lparr>directives = [upperNode]\<rparr>))"
    by (simp add: model_defs example_defs)
  from usage_site_outside_declaration_site[OF inst base nodes run decl d] run
  show ?thesis by blast
qed

section \<open>The shared context\<close>

text \<open>
  C7. On every invocation of the resolver installed on a field, every handler and the base
  resolver are invoked with the context value the caller gave to the invocation, the same
  reference and never another value or a copy. What one handler writes through it is
  therefore what the later ones read: with handlers that each append their name to a list
  the context refers to, resolving \<open>secret @upper\<close> and then the sibling field \<open>fullname\<close> with
  the same context leaves the list \<open>upper, role, whatever, secret, fullname\<close>, every entry in
  the order of invocation.
\<close>

theorem context_passed_unchanged:
  assumes inst: "installResolvers resolverMap schema field = Inr installed"
    and base: "resolve field = map_option callHandler base"
  shows "(\<exists>evs. calls (snd (getFieldResolver installed source args context info s)) = calls s @ evs
               \<and> (\<forall>e \<in> set evs. eventContext e = context))
       \<and> heap (snd (graphqlField recordingHandlers readmeSchema (Some (Handlers recordingDirectives))
                      ''Person'' ''fullname'' person (VObj []) contextValue fullnameInfo
                      (snd (graphqlField recordingHandlers readmeSchema
                              (Some (Handlers recordingDirectives))
                              ''Person'' ''secret'' person (VObj []) contextValue secretInfo
                              listState)))) 0
          = VList [VStr ''upper'', VStr ''role'', VStr ''whatever'', VStr ''secret'', VStr ''fullname'']"
proof
  let ?Q = "\<lambda>evs. \<forall>e \<in> set evs. eventContext e = context"
  from inst obtain r where r: "createFieldExecutionResolver field resolverMap schema = Inr r"
    and g: "getFieldResolver installed = createFieldResolver (field\<lparr>resolve := Some r\<rparr>) resolverMap schema"
    by (rule installResolvers_Inr)
  have decl: "appends ?Q (r source args context info)"
    using r unfolding createFieldExecutionResolver_reduce
    by (rule declared_appends[rotated 3]) (auto intro: getFieldResolver_appends[OF base])
  show "\<exists>evs. calls (snd (getFieldResolver installed source args context info s)) = calls s @ evs
               \<and> (\<forall>e \<in> set evs. eventContext e = context)"
  proof (cases "fieldNodes info")
    case Nil
    then show ?thesis by (simp add: g createFieldResolver_no_node)
  next
    case (Cons node rest)
    show ?thesis
    proof (cases "reduce (fieldStep resolverMap schema source args context info) r
                   (filterCustomDirectives (directives node))")
      case (Inl e)
      then show ?thesis by (simp add: g createFieldResolver_node[OF Cons] getFieldResolver_update)
    next
      case (Inr fr)
      have "appends ?Q (fr source args context info)"
        using Inr by (rule used_appends[where P = "\<lambda>_. ?Q", rotated 4]) (auto simp: decl)
      then show ?thesis
        by (simp add: g createFieldResolver_node[OF Cons] getFieldResolver_update Inr appends_def)
    qed
  qed
next
  show "heap (snd (graphqlField recordingHandlers readmeSchema (Some (Handlers recordingDirectives))
                      ''Person'' ''fullname'' person (VObj []) contextValue fullnameInfo
                      (snd (graphqlField recordingHandlers readmeSchema
                              (Some (Handlers recordingDirectives))
                              ''Person'' ''secret'' person (VObj []) contextValue secretInfo
                              listState)))) 0
          = VList [VStr ''upper'', VStr ''role'', VStr ''whatever'', VStr ''secret'', VStr ''fullname'']"
    by (simp add: model_defs example_defs)
qed

theorem context_passed_unchanged_witness:
  "calls (snd (getFieldResolver (projr (installResolvers readmeDirectives readmeSchema secretField))
                 person (VObj []) contextValue secretInfo readmeState))
     = [CallDirective FIELD ''upper'' (VRef 0), CallDirective FIELD_DEFINITION ''role'' (VRef 0),
        CallDirective FIELD_DEFINITION ''whatever'' (VRef 0), CallResolver (VRef 0)]
   \<and> list_all (\<lambda>e. eventContext e = contextValue)
        (calls (snd (getFieldResolver (projr (installResolvers readmeDirectives readmeSchema secretField))
                       person (VObj []) contextValue secretInfo readmeState)))"
proof -
  have inst: "installResolvers readmeDirectives readmeSchema secretField
                = Inr (projr (installResolvers readmeDirectives readmeSchema secretField))"
    by (simp add: model_defs example_defs)
  have base: "resolve secretField = map_option callHandler None"
    by (simp add: secretField_def)
  have c0: "calls readmeState = []"
    by (simp add: readmeState_def)
  from context_passed_unchanged[OF inst base, of person "VObj []" contextValue secretInfo readmeState]
  have "list_all (\<lambda>e. eventContext e = contextValue)
          (calls (snd (getFieldResolver (projr (installResolvers readmeDirectives readmeSchema secretField))
                         person (VObj []) contextValue secretInfo readmeState)))"
    by (auto simp: c0 list_all_iff)
  moreover have "calls (snd (getFieldResolver (projr (installResolvers readmeDirectives readmeSchema secretField))
                 person (VObj []) contextValue secretInfo readmeState))
     = [CallDirective FIELD ''upper'' (VRef 0), CallDirective FIELD_DEFINITION ''role'' (VRef 0),
        CallDirective FIELD_DEFINITION ''whatever'' (VRef 0), CallResolver (VRef 0)]"
    by (simp add: model_defs example_defs)
  ultimately show ?thesis by simp
qed

section \<open>Short circuit\<close>

text \<open>
  C3. The resolver installed on a field is, for a query occurrence, the handlers of the
  occurrence's usage-site directives composed over the declaration-site chain, which is the
  handlers of the declared directives composed over the base resolver. Take the handler of
  one directive of either tier, with the directives of its tier written before it (\<open>inner\<close>)
  and after it (\<open>outer\<close>). What is composed is the handlers of \<open>outer\<close>, and for a
  declaration-site directive then those of the usage site, over the part of the chain that
  ends with this handler, so the part's result reaches the caller only through them. And on
  every invocation of that part on which the handler makes no call of its continuation, the
  part's outcome and final state are the handler's own, whatever continuation it had been
  given, and the only invocation recorded is the handler's. For a declaration-site handler
  the continuation holds the handlers of \<open>inner\<close> and the base resolver; for a usage-site
  handler it holds the usage-site handlers of \<open>inner\<close>, the whole declaration-site chain and
  the base resolver: none of them is invoked.
\<close>

theorem short_circuit:
  assumes inst: "installResolvers resolverMap schema field = Inr installed"
    and r: "createFieldExecutionResolver field resolverMap schema = Inr r"
  shows "(directives (astNode field) = inner @ d # outer
          \<and> name_value d \<notin> set BUILT_IN_DIRECTIVES
          \<and> createFieldExecutionResolver (field\<lparr>astNode := \<lparr>directives = inner\<rparr>\<rparr>)
                resolverMap schema = Inr innerResolver
          \<and> createFieldExecutionResolver (field\<lparr>astNode := \<lparr>directives = inner @ [d]\<rparr>\<rparr>)
                resolverMap schema = Inr stopped
          \<and> getDirectiveInfo d resolverMap schema FIELD_DEFINITION None = Inr directiveInfo \<longrightarrow>
            createFieldExecutionResolver
              (field\<lparr>astNode := \<lparr>directives = outer\<rparr>, resolve := Some stopped\<rparr>) resolverMap schema
              = Inr r
            \<and> (\<forall>s k. resolves (di_resolver directiveInfo source (di_args directiveInfo) context info args)
                        (innerResolver source args context info)
                        (s\<lparr>calls := calls s @ [CallDirective FIELD_DEFINITION (name_value d) context]\<rparr>) = 0
                   \<longrightarrow>
                     stopped source args context info s
                       = exec (di_resolver directiveInfo source (di_args directiveInfo) context info args) k
                           (s\<lparr>calls := calls s @ [CallDirective FIELD_DEFINITION (name_value d) context]\<rparr>)
                     \<and> calls (snd (stopped source args context info s))
                       = calls s @ [CallDirective FIELD_DEFINITION (name_value d) context]))
       \<and> (fieldNodes info = node # rest \<longrightarrow>
            getFieldResolver installed source args context info
              = (case reduce (fieldStep resolverMap schema source args context info) r
                        (filterCustomDirectives (directives node)) of
                   Inl e \<Rightarrow> (\<lambda>s. (Inl e, s))
                 | Inr fieldResolver \<Rightarrow> fieldResolver source args context info))
       \<and> (fieldNodes info = node # rest
          \<and> directives node = usedInner @ u # usedOuter
          \<and> name_value u \<notin> set BUILT_IN_DIRECTIVES
          \<and> reduce (fieldStep resolverMap schema source args context info) r
                (filterCustomDirectives usedInner) = Inr usedResolver
          \<and> reduce (fieldStep resolverMap schema source args context info) r
                (filterCustomDirectives (usedInner @ [u])) = Inr usedStopped
          \<and> getDirectiveInfo u resolverMap schema FIELD (Some (variableValues info)) = Inr usedInfo \<longrightarrow>
            reduce (fieldStep resolverMap schema source args context info) r
                (filterCustomDirectives (directives node))
              = reduce (fieldStep resolverMap schema source args context info) usedStopped
                  (filterCustomDirectives usedOuter)
            \<and> (\<forall>s k. resolves (di_resolver usedInfo source (di_args usedInfo) context info args)
                        (usedResolver source args context info)
                        (s\<lparr>calls := calls s @ [CallDirective FIELD (name_value u) context]\<rparr>) = 0
                   \<longrightarrow>
                     usedStopped source args context info s
                       = exec (di_resolver usedInfo source (di_args usedInfo) context info args) k
                           (s\<lparr>calls := calls s @ [CallDirective FIELD (name_value u) context]\<rparr>)
                     \<and> calls (snd (usedStopped source args context info s))
                       = calls s @ [CallDirective FIELD (name_value u) context]))"
proof (intro conjI)
  show "directives (astNode field) = inner @ d # outer
          \<and> name_value d \<notin> set BUILT_IN_DIRECTIVES
          \<and> createFieldExecutionResolver (field\<lparr>astNode := \<lparr>directives = inner\<rparr>\<rparr>)
                resolverMap schema = Inr innerResolver
          \<and> createFieldExecutionResolver (field\<lparr>astNode := \<lparr>directives = inner @ [d]\<rparr>\<rparr>)
                resolverMap schema = Inr stopped
          \<and> getDirectiveInfo d resolverMap schema FIELD_DEFINITION None = Inr directiveInfo \<longrightarrow>
            createFieldExecutionResolver
              (field\<lparr>astNode := \<lparr>directives = outer\<rparr>, resolve := Some stopped\<rparr>) resolverMap schema
              = Inr r
            \<and> (\<forall>s k. resolves (di_resolver directiveInfo source (di_args directiveInfo) context info args)
                        (innerResolver source args context info)
                        (s\<lparr>calls := calls s @ [CallDirective FIELD_DEFINITION (name_value d) context]\<rparr>) = 0
                   \<longrightarrow>
                     stopped source args context info s
                       = exec (di_resolver directiveInfo source (di_args directiveInfo) context info args) k
                           (s\<lparr>calls := calls s @ [CallDirective FIELD_DEFINITION (name_value d) context]\<rparr>)
                     \<and> calls (snd (stopped source args context info s))
                       = calls s @ [CallDirective FIELD_DEFINITION (name_value d) context])"
  proof (intro impI conjI allI)
    assume a: "directives (astNode field) = inner @ d # outer
          \<and> name_value d \<notin> set BUILT_IN_DIRECTIVES
          \<and> createFieldExecutionResolver (field\<lparr>astNode := \<lparr>directives = inner\<rparr>\<rparr>)
                resolverMap schema = Inr innerResolver
          \<and> createFieldExecutionResolver (field\<lparr>astNode := \<lparr>directives = inner @ [d]\<rparr>\<rparr>)
                resolverMap schema = Inr stopped
          \<and> getDirectiveInfo d resolverMap schema FIELD_DEFINITION None = Inr directiveInfo"
    then have dirs: "directives (astNode field) = inner @ d # outer"
      and custom: "name_value d \<notin> set BUILT_IN_DIRECTIVES"
      and inner: "createFieldExecutionResolver (field\<lparr>astNode := \<lparr>directives = inner\<rparr>\<rparr>)
                    resolverMap schema = Inr innerResolver"
      and part: "createFieldExecutionResolver (field\<lparr>astNode := \<lparr>directives = inner @ [d]\<rparr>\<rparr>)
                   resolverMap schema = Inr stopped"
      and di: "getDirectiveInfo d resolverMap schema FIELD_DEFINITION None = Inr directiveInfo"
      by blast+
    let ?step = "executionStep resolverMap schema"
    from inner have A: "reduce ?step (getFieldResolver field) (filterCustomDirectives inner) = Inr innerResolver"
      by (simp add: createFieldExecutionResolver_reduce getFieldResolver_astNode)
    have fd: "filterCustomDirectives [d] = [d]"
      using custom by (simp add: filterCustomDirectives_def)
    from part have Ad: "?step innerResolver d = Inr stopped"
      by (auto simp: createFieldExecutionResolver_reduce getFieldResolver_astNode
            filterCustomDirectives_append fd reduce_append A split: sum.splits)
    from r A Ad have "reduce ?step stopped (filterCustomDirectives outer) = Inr r"
      by (simp add: createFieldExecutionResolver_reduce dirs filterCustomDirectives_append
            filterCustomDirectives_Cons[OF custom] reduce_append)
    then show "createFieldExecutionResolver
             (field\<lparr>astNode := \<lparr>directives = outer\<rparr>, resolve := Some stopped\<rparr>) resolverMap schema
             = Inr r"
      by (simp add: createFieldExecutionResolver_reduce getFieldResolver_def)
    from Ad di have stopped: "stopped = (\<lambda>source args context info.
              callDirective FIELD_DEFINITION (name_value d) (di_resolver directiveInfo)
                (innerResolver source args context info) source (di_args directiveInfo) context info args)"
      by (simp add: executionStep_def)
    fix s :: state and k :: comp
    let ?p = "di_resolver directiveInfo source (di_args directiveInfo) context info args"
    let ?s1 = "s\<lparr>calls := calls s @ [CallDirective FIELD_DEFINITION (name_value d) context]\<rparr>"
    assume none: "resolves ?p (innerResolver source args context info) ?s1 = 0"
    have run: "stopped source args context info s = exec ?p (innerResolver source args context info) ?s1"
      by (simp add: stopped callDirective_def)
    from none show "stopped source args context info s = exec ?p k ?s1"
      unfolding run by (rule exec_no_resolve_any)
    from exec_no_resolve[OF none]
    show "calls (snd (stopped source args context info s))
            = calls s @ [CallDirective FIELD_DEFINITION (name_value d) context]"
      unfolding run by simp
  qed
next
  from inst r have g: "getFieldResolver installed
                         = createFieldResolver (field\<lparr>resolve := Some r\<rparr>) resolverMap schema"
    by (auto elim: installResolvers_Inr)
  show "fieldNodes info = node # rest \<longrightarrow>
            getFieldResolver installed source args context info
              = (case reduce (fieldStep resolverMap schema source args context info) r
                        (filterCustomDirectives (directives node)) of
                   Inl e \<Rightarrow> (\<lambda>s. (Inl e, s))
                 | Inr fieldResolver \<Rightarrow> fieldResolver source args context info)"
    by (simp add: g createFieldResolver_node getFieldResolver_update)
next
  show "fieldNodes info = node # rest
          \<and> directives node = usedInner @ u # usedOuter
          \<and> name_value u \<notin> set BUILT_IN_DIRECTIVES
          \<and> reduce (fieldStep resolverMap schema source args context info) r
                (filterCustomDirectives usedInner) = Inr usedResolver
          \<and> reduce (fieldStep resolverMap schema source args context info) r
                (filterCustomDirectives (usedInner @ [u])) = Inr usedStopped
          \<and> getDirectiveInfo u resolverMap schema FIELD (Some (variableValues info)) = Inr usedInfo \<longrightarrow>
            reduce (fieldStep resolverMap schema source args context info) r
                (filterCustomDirectives (directives node))
              = reduce (fieldStep resolverMap schema source args context info) usedStopped
                  (filterCustomDirectives usedOuter)
            \<and> (\<forall>s k. resolves (di_resolver usedInfo source (di_args usedInfo) context info args)
                        (usedResolver source args context info)
                        (s\<lparr>calls := calls s @ [CallDirective FIELD (name_value u) context]\<rparr>) = 0
                   \<longrightarrow>
                     usedStopped source args context info s
                       = exec (di_resolver usedInfo source (di_args usedInfo) context info args) k
                           (s\<lparr>calls := calls s @ [CallDirective FIELD (name_value u) context]\<rparr>)
                     \<and> calls (snd (usedStopped source args context info s))
                       = calls s @ [CallDirective FIELD (name_value u) context])"
  proof (intro impI conjI allI)
    assume a: "fieldNodes info = node # rest
          \<and> directives node = usedInner @ u # usedOuter
          \<and> name_value u \<notin> set BUILT_IN_DIRECTIVES
          \<and> reduce (fieldStep resolverMap schema source args context info) r
                (filterCustomDirectives usedInner) = Inr usedResolver
          \<and> reduce (fieldStep resolverMap schema source args context info) r
                (filterCustomDirectives (usedInner @ [u])) = Inr usedStopped
          \<and> getDirectiveInfo u resolverMap schema FIELD (Some (variableValues info)) = Inr usedInfo"
    let ?step = "fieldStep resolverMap schema source args context info"
    from a have dirs: "directives node = usedInner @ u # usedOuter"
      and custom: "name_value u \<notin> set BUILT_IN_DIRECTIVES"
      and A: "reduce ?step r (filterCustomDirectives usedInner) = Inr usedResolver"
      and part: "reduce ?step r (filterCustomDirectives (usedInner @ [u])) = Inr usedStopped"
      and di: "getDirectiveInfo u resolverMap schema FIELD (Some (variableValues info)) = Inr usedInfo"
      by blast+
    have fd: "filterCustomDirectives [u] = [u]"
      using custom by (simp add: filterCustomDirectives_def)
    from part have Ad: "?step usedResolver u = Inr usedStopped"
      by (auto simp: filterCustomDirectives_append fd reduce_append A split: sum.splits)
    from A Ad show "reduce ?step r (filterCustomDirectives (directives node))
                      = reduce ?step usedStopped (filterCustomDirectives usedOuter)"
      by (simp add: dirs filterCustomDirectives_append filterCustomDirectives_Cons[OF custom]
            reduce_append)
    from Ad have stopped: "usedStopped = (\<lambda>_ _ _ _.
              callDirective FIELD (name_value u) (di_resolver usedInfo)
                (usedResolver source args context info) source (di_args usedInfo) context info args)"
      by (simp add: fieldStep_Inr[OF di])
    fix s :: state and k :: comp
    let ?p = "di_resolver usedInfo source (di_args usedInfo) context info args"
    let ?s1 = "s\<lparr>calls := calls s @ [CallDirective FIELD (name_value u) context]\<rparr>"
    assume none: "resolves ?p (usedResolver source args context info) ?s1 = 0"
    have run: "usedStopped source args context info s = exec ?p (usedResolver source args context info) ?s1"
      by (simp add: stopped callDirective_def)
    from none show "usedStopped source args context info s = exec ?p k ?s1"
      unfolding run by (rule exec_no_resolve_any)
    from exec_no_resolve[OF none]
    show "calls (snd (usedStopped source args context info s))
            = calls s @ [CallDirective FIELD (name_value u) context]"
      unfolding run by simp
  qed
qed

theorem short_circuit_witness:
  "resolverOf (createFieldExecutionResolver
                 (stoppedField\<lparr>astNode := \<lparr>directives = [whateverNode] @ [stopNode]\<rparr>\<rparr>)
                 demoDirectives demoSchema)
       VNull (VObj []) contextValue stoppedInfo readmeState
     = (Inr (VStr ''X''),
        readmeState\<lparr>calls := [CallDirective FIELD_DEFINITION ''stop'' contextValue]\<rparr>)
   \<and> createFieldExecutionResolver
         (stoppedField\<lparr>astNode := \<lparr>directives = [roleNode]\<rparr>,
            resolve := Some (resolverOf (createFieldExecutionResolver
                 (stoppedField\<lparr>astNode := \<lparr>directives = [whateverNode] @ [stopNode]\<rparr>\<rparr>)
                 demoDirectives demoSchema))\<rparr>) demoDirectives demoSchema
       = createFieldExecutionResolver stoppedField demoDirectives demoSchema
   \<and> resolverOf (reduce (fieldStep demoDirectives demoSchema VNull (VObj []) contextValue stoppedInfo)
                   (resolverOf (createFieldExecutionResolver stoppedField demoDirectives demoSchema))
                   (filterCustomDirectives ([] @ [stopNode])))
       VNull (VObj []) contextValue stoppedInfo readmeState
     = (Inr (VStr ''X''), readmeState\<lparr>calls := [CallDirective FIELD ''stop'' contextValue]\<rparr>)
   \<and> getFieldResolver (projr (installResolvers demoDirectives demoSchema stoppedField))
       VNull (VObj []) contextValue stoppedInfo readmeState
     = (Inr (VStr ''X''),
        readmeState\<lparr>calls := [CallDirective FIELD ''upper'' contextValue,
                               CallDirective FIELD ''stop'' contextValue]\<rparr>)"
proof -
  let ?r = "resolverOf (createFieldExecutionResolver stoppedField demoDirectives demoSchema)"
  let ?installed = "projr (installResolvers demoDirectives demoSchema stoppedField)"
  let ?inner = "resolverOf (createFieldExecutionResolver
                  (stoppedField\<lparr>astNode := \<lparr>directives = [whateverNode]\<rparr>\<rparr>) demoDirectives demoSchema)"
  let ?stopped = "resolverOf (createFieldExecutionResolver
                    (stoppedField\<lparr>astNode := \<lparr>directives = [whateverNode] @ [stopNode]\<rparr>\<rparr>)
                    demoDirectives demoSchema)"
  let ?step = "fieldStep demoDirectives demoSchema VNull (VObj []) contextValue stoppedInfo"
  let ?used = "resolverOf (reduce ?step ?r (filterCustomDirectives ([] @ [stopNode])))"
  let ?di = "\<lparr>di_args = VObj [], di_resolver = stopDirective\<rparr>"
  let ?node = "\<lparr>directives = [stopNode, upperNode]\<rparr>"
  have inst: "installResolvers demoDirectives demoSchema stoppedField = Inr ?installed"
    by (simp add: model_defs example_defs)
  have r: "createFieldExecutionResolver stoppedField demoDirectives demoSchema = Inr ?r"
    by (simp add: model_defs example_defs)
  have dirs: "directives (astNode stoppedField) = [whateverNode] @ stopNode # [roleNode]"
    by (simp add: stoppedField_def)
  have custom: "name_value stopNode \<notin> set BUILT_IN_DIRECTIVES"
    by (simp add: stopNode_def BUILT_IN_DIRECTIVES_def)
  have inner: "createFieldExecutionResolver (stoppedField\<lparr>astNode := \<lparr>directives = [whateverNode]\<rparr>\<rparr>)
                 demoDirectives demoSchema = Inr ?inner"
    by (simp add: model_defs example_defs)
  have part: "createFieldExecutionResolver
                (stoppedField\<lparr>astNode := \<lparr>directives = [whateverNode] @ [stopNode]\<rparr>\<rparr>)
                demoDirectives demoSchema = Inr ?stopped"
    by (simp add: model_defs example_defs)
  have di: "getDirectiveInfo stopNode demoDirectives demoSchema FIELD_DEFINITION None = Inr ?di"
    by (simp add: model_defs example_defs)
  have nodes: "fieldNodes stoppedInfo = ?node # []"
    by (simp add: stoppedInfo_def)
  have udirs: "directives ?node = [] @ stopNode # [upperNode]"
    by simp
  have uinner: "reduce ?step ?r (filterCustomDirectives []) = Inr ?r"
    by (simp add: filterCustomDirectives_def)
  have upart: "reduce ?step ?r (filterCustomDirectives ([] @ [stopNode])) = Inr ?used"
    by (simp add: model_defs example_defs)
  have udi: "getDirectiveInfo stopNode demoDirectives demoSchema FIELD
               (Some (variableValues stoppedInfo)) = Inr ?di"
    by (simp add: model_defs example_defs)
  have none: "resolves (di_resolver ?di VNull (di_args ?di) contextValue stoppedInfo (VObj [])) k s = 0"
    for k s
    by (simp add: stopDirective_def)
  note t = short_circuit[OF inst r, where inner = "[whateverNode]" and d = stopNode
             and outer = "[roleNode]" and innerResolver = ?inner and stopped = ?stopped
             and directiveInfo = ?di and source = VNull and info = stoppedInfo and args = "VObj []"
             and node = ?node and rest = "[]" and usedInner = "[]" and u = stopNode
             and usedOuter = "[upperNode]" and usedResolver = ?r and usedStopped = ?used
             and usedInfo = ?di]
  from t dirs custom inner part di none
  have "?stopped VNull (VObj []) contextValue stoppedInfo readmeState
          = exec (di_resolver ?di VNull (di_args ?di) contextValue stoppedInfo (VObj []))
              (\<lambda>s. (Inr VNull, s))
              (readmeState\<lparr>calls := calls readmeState
                  @ [CallDirective FIELD_DEFINITION (name_value stopNode) contextValue]\<rparr>)"
    by blast
  then have 1: "?stopped VNull (VObj []) contextValue stoppedInfo readmeState
     = (Inr (VStr ''X''),
        readmeState\<lparr>calls := [CallDirective FIELD_DEFINITION ''stop'' contextValue]\<rparr>)"
    by (simp add: stopDirective_def stopNode_def readmeState_def)
  from t dirs custom inner part di r have 2: "createFieldExecutionResolver
         (stoppedField\<lparr>astNode := \<lparr>directives = [roleNode]\<rparr>, resolve := Some ?stopped\<rparr>)
         demoDirectives demoSchema
       = createFieldExecutionResolver stoppedField demoDirectives demoSchema"
    by simp
  from t nodes udirs custom uinner upart udi none
  have "?used VNull (VObj []) contextValue stoppedInfo readmeState
          = exec (di_resolver ?di VNull (di_args ?di) contextValue stoppedInfo (VObj []))
              (\<lambda>s. (Inr VNull, s))
              (readmeState\<lparr>calls := calls readmeState
                  @ [CallDirective FIELD (name_value stopNode) contextValue]\<rparr>)"
    by blast
  then have 3: "?used VNull (VObj []) contextValue stoppedInfo readmeState
     = (Inr (VStr ''X''), readmeState\<lparr>calls := [CallDirective FIELD ''stop'' contextValue]\<rparr>)"
    by (simp add: stopDirective_def stopNode_def readmeState_def)
  from t nodes have "getFieldResolver ?installed VNull (VObj []) contextValue stoppedInfo
     = (case reduce ?step ?r (filterCustomDirectives (directives ?node)) of
          Inl e \<Rightarrow> (\<lambda>s. (Inl e, s))
        | Inr fieldResolver \<Rightarrow> fieldResolver VNull (VObj []) contextValue stoppedInfo)"
    by blast
  then have 4: "getFieldResolver ?installed VNull (VObj []) contextValue stoppedInfo readmeState
     = (Inr (VStr ''X''),
        readmeState\<lparr>calls := [CallDirective FIELD ''upper'' contextValue,
                               CallDirective FIELD ''stop'' contextValue]\<rparr>)"
    by (simp add: model_defs example_defs toUpperCase_def)
  from 1 2 3 4 show ?thesis by simp
qed

section \<open>Failures\<close>

lemma exec_failsWith:
  "failsWith e p \<Longrightarrow>
   fst (exec p k s) = Inl e \<and> calls (snd (exec p k s)) = calls s \<and> exec p k' s = exec p k s"
proof (induction p arbitrary: s)
  case (Read f s)
  from Read.prems have "failsWith e (f (heap s))" by simp
  then have "fst (exec (f (heap s)) k s) = Inl e \<and> calls (snd (exec (f (heap s)) k s)) = calls s
             \<and> exec (f (heap s)) k' s = exec (f (heap s)) k s"
    by (rule Read.IH[OF rangeI])
  then show ?case by simp
next
  case (Write h p s)
  from Write.prems have "failsWith e p" by simp
  from Write.IH[OF this, of "s\<lparr>heap := h\<rparr>"] show ?case by simp
qed simp_all

lemma exec_failureOrSame:
  assumes K: "\<And>t. failureOrSame R K K' t" and nc: "passesFailuresOn p"
  shows "failureOrSame R (exec p K) (exec p K') s"
  using nc
proof (induction p arbitrary: s)
  case (Return v)
  show ?case by (simp add: failureOrSame_def)
next
  case (Throw e)
  show ?case by (simp add: failureOrSame_def)
next
  case (Resolve f s)
  obtain out s1 where Ks: "K s = (out, s1)" by (cases "K s")
  from K[of s] consider
    (failed) s0 where "isl (fst (R s0))" "fst (K s) = fst (R s0)" "calls (snd (K s)) = calls (snd (R s0))"
    | (same) "K' s = K s"
    unfolding failureOrSame_def by blast
  then show ?case
  proof cases
    case failed
    with Ks have "isl out" by simp
    then obtain e where out: "out = Inl e" by (cases out) auto
    from Resolve.prems have "failsWith e (f (Inl e))" by simp
    from exec_failsWith[OF this, of K s1]
    have "fst (exec (Resolve f) K s) = Inl e" "calls (snd (exec (Resolve f) K s)) = calls s1"
      using Ks out by simp_all
    with failed Ks out have "isl (fst (R s0)) \<and> fst (exec (Resolve f) K s) = fst (R s0)
        \<and> calls (snd (exec (Resolve f) K s)) = calls (snd (R s0))"
      by simp
    then show ?thesis unfolding failureOrSame_def by blast
  next
    case same
    show ?thesis
    proof (cases out)
      case (Inl e)
      from Resolve.prems have "failsWith e (f (Inl e))" by simp
      from exec_failsWith[OF this, of K s1 K']
      have "exec (f (Inl e)) K' s1 = exec (f (Inl e)) K s1" by simp
      with Ks same Inl show ?thesis by (simp add: failureOrSame_def)
    next
      case (Inr v)
      from Resolve.prems have "passesFailuresOn (f (Inr v))" by simp
      then have "failureOrSame R (exec (f (Inr v)) K) (exec (f (Inr v)) K') s1"
        by (rule Resolve.IH[OF rangeI])
      with Ks same Inr show ?thesis by (simp add: failureOrSame_def)
    qed
  qed
next
  case (Read f s)
  from Read.prems have "passesFailuresOn (f (heap s))" by simp
  then have "failureOrSame R (exec (f (heap s)) K) (exec (f (heap s)) K') s"
    by (rule Read.IH[OF rangeI])
  then show ?case by (simp add: failureOrSame_def)
next
  case (Write h p s)
  from Write.prems have "passesFailuresOn p" by simp
  then have "failureOrSame R (exec p K) (exec p K') (s\<lparr>heap := h\<rparr>)"
    by (rule Write.IH)
  then show ?case by (simp add: failureOrSame_def)
qed

lemma reduce_failureOrSame:
  assumes nc: "\<And>d h dargs. d \<in> set ds \<Longrightarrow> rm (name_value d) = Some h \<Longrightarrow>
                  passesFailuresOn (h source dargs context info args)"
  shows "reduce (executionStep rm schema) A ds = Inr r \<Longrightarrow>
         reduce (executionStep rm schema) B ds = Inr r' \<Longrightarrow>
         (\<And>t. failureOrSame R (A source args context info) (B source args context info) t) \<Longrightarrow>
         failureOrSame R (r source args context info) (r' source args context info) s"
  using nc
proof (induction ds arbitrary: A B s)
  case Nil
  then show ?case by simp
next
  case (Cons d ds)
  from Cons.prems(1) obtain A' where A': "executionStep rm schema A d = Inr A'"
    and rA: "reduce (executionStep rm schema) A' ds = Inr r"
    by (auto split: sum.splits)
  from Cons.prems(2) obtain B' where B': "executionStep rm schema B d = Inr B'"
    and rB: "reduce (executionStep rm schema) B' ds = Inr r'"
    by (auto split: sum.splits)
  from A' obtain di where di: "getDirectiveInfo d rm schema FIELD_DEFINITION None = Inr di"
    and A'_eq: "A' = (\<lambda>source args context info.
            callDirective FIELD_DEFINITION (name_value d) (di_resolver di)
              (A source args context info) source (di_args di) context info args)"
    by (auto simp: executionStep_def split: sum.splits)
  from B' di have B'_eq: "B' = (\<lambda>source args context info.
            callDirective FIELD_DEFINITION (name_value d) (di_resolver di)
              (B source args context info) source (di_args di) context info args)"
    by (auto simp: executionStep_def split: sum.splits)
  from di have "rm (name_value d) = Some (di_resolver di)"
    by (rule getDirectiveInfo_resolver)
  then have nc_d: "passesFailuresOn (di_resolver di source (di_args di) context info args)"
    using Cons.prems(4)[of d] by simp
  have step: "\<And>t. failureOrSame R (A' source args context info) (B' source args context info) t"
    unfolding A'_eq B'_eq callDirective_def
    using exec_failureOrSame[of R, OF Cons.prems(3) nc_d] by (simp add: failureOrSame_def)
  show ?case
    using rA rB step
  proof (rule Cons.IH)
    fix d' h dargs
    assume "d' \<in> set ds" "rm (name_value d') = Some h"
    then show "passesFailuresOn (h source dargs context info args)"
      using Cons.prems(4)[of d' h dargs] by simp
  qed
qed

text \<open>The same for the handlers of a usage site; and whether their composition fails does
  not depend on the resolver they are composed over.\<close>

lemma reduce_used_failureOrSame:
  assumes nc: "\<And>d h dargs. d \<in> set ds \<Longrightarrow> rm (name_value d) = Some h \<Longrightarrow>
                  passesFailuresOn (h source dargs context info args)"
  shows "reduce (fieldStep rm schema source args context info) A ds = Inr r \<Longrightarrow>
         reduce (fieldStep rm schema source args context info) B ds = Inr r' \<Longrightarrow>
         (\<And>t. failureOrSame R (A source args context info) (B source args context info) t) \<Longrightarrow>
         failureOrSame R (r source args context info) (r' source args context info) s"
  using nc
proof (induction ds arbitrary: A B s)
  case Nil
  then show ?case by simp
next
  case (Cons d ds)
  let ?step = "fieldStep rm schema source args context info"
  from Cons.prems(1) obtain A' where A': "?step A d = Inr A'" and rA: "reduce ?step A' ds = Inr r"
    by (auto split: sum.splits)
  from Cons.prems(2) obtain B' where B': "?step B d = Inr B'" and rB: "reduce ?step B' ds = Inr r'"
    by (auto split: sum.splits)
  from A' obtain di where di: "getDirectiveInfo d rm schema FIELD (Some (variableValues info)) = Inr di"
    by (auto simp: fieldStep_def split: sum.splits)
  from A' have A'_eq: "A' = (\<lambda>_ _ _ _.
            callDirective FIELD (name_value d) (di_resolver di)
              (A source args context info) source (di_args di) context info args)"
    by (simp add: fieldStep_Inr[OF di])
  from B' have B'_eq: "B' = (\<lambda>_ _ _ _.
            callDirective FIELD (name_value d) (di_resolver di)
              (B source args context info) source (di_args di) context info args)"
    by (simp add: fieldStep_Inr[OF di])
  from di have "rm (name_value d) = Some (di_resolver di)"
    by (rule getDirectiveInfo_resolver)
  then have nc_d: "passesFailuresOn (di_resolver di source (di_args di) context info args)"
    using Cons.prems(4)[of d] by simp
  have step: "\<And>t. failureOrSame R (A' source args context info) (B' source args context info) t"
    unfolding A'_eq B'_eq callDirective_def
    using exec_failureOrSame[of R, OF Cons.prems(3) nc_d] by (simp add: failureOrSame_def)
  show ?case
    using rA rB step
  proof (rule Cons.IH)
    fix d' h dargs
    assume "d' \<in> set ds" "rm (name_value d') = Some h"
    then show "passesFailuresOn (h source dargs context info args)"
      using Cons.prems(4)[of d' h dargs] by simp
  qed
qed

lemma reduce_fieldStep_Inl:
  "reduce (fieldStep rm schema source args context info) A ds = Inl e \<Longrightarrow>
   reduce (fieldStep rm schema source args context info) B ds = Inl e"
proof (induction ds arbitrary: A B)
  case Nil
  then show ?case by simp
next
  case (Cons d ds)
  show ?case
  proof (cases "getDirectiveInfo d rm schema FIELD (Some (variableValues info))")
    case (Inl e')
    with Cons.prems show ?thesis by (simp add: fieldStep_Inl)
  next
    case (Inr di)
    with Cons.prems show ?thesis by (simp add: fieldStep_Inr[OF Inr] Cons.IH)
  qed
qed

lemma reduce_fieldStep_Inr:
  assumes "reduce (fieldStep rm schema source args context info) A ds = Inr r"
  obtains r' where "reduce (fieldStep rm schema source args context info) B ds = Inr r'"
proof (cases "reduce (fieldStep rm schema source args context info) B ds")
  case (Inl e)
  then have "reduce (fieldStep rm schema source args context info) A ds = Inl e"
    by (rule reduce_fieldStep_Inl)
  with assms show ?thesis by simp
next
  case (Inr r')
  then show ?thesis by (rule that)
qed

text \<open>
  C4, as the claim states it, fails: a handler may catch what its continuation throws. With
  the directive \<open>recover\<close> on the field \<open>risky\<close>, whose handler of the resolver table throws, the
  base resolver is invoked and throws, and the composed resolver returns \<open>"recovered"\<close>: the
  error does not reach the caller.
\<close>

theorem caught_failure_counterexample:
  "fst (callHandler boom VNull (VObj []) contextValue riskyInfo
          (readmeState\<lparr>calls := [CallDirective FIELD_DEFINITION ''recover'' contextValue]\<rparr>))
     = Inl (Thrown (VStr ''boom''))
   \<and> graphqlField demoHandlers demoSchema (Some (Handlers demoDirectives))
        ''Query'' ''risky'' VNull (VObj []) contextValue riskyInfo readmeState
     = (Inr (VStr ''recovered''),
        readmeState\<lparr>calls := [CallDirective FIELD_DEFINITION ''recover'' contextValue,
                               CallResolver contextValue]\<rparr>)"
  by (simp add: model_defs example_defs)

text \<open>
  C4, amended. The chain itself never handles a failure. Take the resolver installed on a
  field and a query occurrence, and a part of what is composed for them: the base resolver
  alone or with the handlers of the declared directives \<open>inner\<close> around it, or the whole
  declaration-site chain with the handlers of the usage-site directives \<open>usedInner\<close> around
  it. Let every handler outside the part pass on the failures of its continuation: the
  handlers of the directives declared after \<open>inner\<close> and of the usage site in the first case,
  those of the usage-site directives after \<open>usedInner\<close> in the second. Then on every
  invocation of the installed resolver one of two things holds. Either a run of that part
  failed and the invocation ends as that run did: the outcome is the error the part failed
  with, unchanged, and the invocations recorded are those recorded when the part failed, so
  no handler and no resolver was invoked after the failure. Or no run of the part failed on
  this invocation: the invocation goes the same with any resolver in the part's place that
  behaves as the part does wherever the part succeeds.
\<close>

theorem failure_reaches_caller:
  assumes inst: "installResolvers resolverMap schema field = Inr installed"
    and r: "createFieldExecutionResolver field resolverMap schema = Inr r"
    and nodes: "fieldNodes info = node # rest"
  shows "(directives (astNode field) = inner @ outer
          \<and> createFieldExecutionResolver (field\<lparr>astNode := \<lparr>directives = inner\<rparr>\<rparr>)
                resolverMap schema = Inr part
          \<and> (\<forall>d \<in> set (filterCustomDirectives outer @ filterCustomDirectives (directives node)).
                \<forall>h dargs. resolverMap (name_value d) = Some h \<longrightarrow>
                  passesFailuresOn (h source dargs context info args)) \<longrightarrow>
          (\<exists>s0. isl (fst (part source args context info s0))
              \<and> fst (getFieldResolver installed source args context info s)
                  = fst (part source args context info s0)
              \<and> calls (snd (getFieldResolver installed source args context info s))
                  = calls (snd (part source args context info s0)))
          \<or> (\<forall>other installed'.
                (\<forall>t. \<not> isl (fst (part source args context info t)) \<longrightarrow>
                       other source args context info t = part source args context info t) \<longrightarrow>
                installResolvers resolverMap schema
                  (field\<lparr>astNode := \<lparr>directives = outer\<rparr>, resolve := Some other\<rparr>) = Inr installed' \<longrightarrow>
                getFieldResolver installed' source args context info s
                  = getFieldResolver installed source args context info s))
       \<and> (directives node = usedInner @ usedOuter
          \<and> reduce (fieldStep resolverMap schema source args context info) r
                (filterCustomDirectives usedInner) = Inr usedPart
          \<and> (\<forall>d \<in> set (filterCustomDirectives usedOuter).
                \<forall>h dargs. resolverMap (name_value d) = Some h \<longrightarrow>
                  passesFailuresOn (h source dargs context info args)) \<longrightarrow>
          (\<exists>s0. isl (fst (usedPart source args context info s0))
              \<and> fst (getFieldResolver installed source args context info s)
                  = fst (usedPart source args context info s0)
              \<and> calls (snd (getFieldResolver installed source args context info s))
                  = calls (snd (usedPart source args context info s0)))
          \<or> (\<forall>other fieldResolver.
                (\<forall>t. \<not> isl (fst (usedPart source args context info t)) \<longrightarrow>
                       other source args context info t = usedPart source args context info t) \<longrightarrow>
                reduce (fieldStep resolverMap schema source args context info) other
                  (filterCustomDirectives usedOuter) = Inr fieldResolver \<longrightarrow>
                fieldResolver source args context info s
                  = getFieldResolver installed source args context info s))"
proof (intro conjI impI)
  let ?step = "executionStep resolverMap schema"
  let ?used = "fieldStep resolverMap schema source args context info"
  let ?customs = "filterCustomDirectives (directives node)"
  let ?I = "getFieldResolver installed source args context info"
  from inst r have g: "getFieldResolver installed
                         = createFieldResolver (field\<lparr>resolve := Some r\<rparr>) resolverMap schema"
    by (auto elim: installResolvers_Inr)
  have run: "?I = (case reduce ?used r ?customs of
                     Inl e \<Rightarrow> (\<lambda>s. (Inl e, s))
                   | Inr fieldResolver \<Rightarrow> fieldResolver source args context info)"
    by (simp add: g createFieldResolver_node[OF nodes] getFieldResolver_update)
  {
    assume a: "directives (astNode field) = inner @ outer
          \<and> createFieldExecutionResolver (field\<lparr>astNode := \<lparr>directives = inner\<rparr>\<rparr>)
                resolverMap schema = Inr part
          \<and> (\<forall>d \<in> set (filterCustomDirectives outer @ filterCustomDirectives (directives node)).
                \<forall>h dargs. resolverMap (name_value d) = Some h \<longrightarrow>
                  passesFailuresOn (h source dargs context info args))"
    let ?P = "part source args context info"
    from a have dirs: "directives (astNode field) = inner @ outer"
      and part: "createFieldExecutionResolver (field\<lparr>astNode := \<lparr>directives = inner\<rparr>\<rparr>)
                   resolverMap schema = Inr part"
      by blast+
    from a have nc: "passesFailuresOn (h source dargs context info args)"
      if "d \<in> set (filterCustomDirectives outer) \<or> d \<in> set ?customs"
        "resolverMap (name_value d) = Some h" for d h dargs
      using that by auto
    from part have A: "reduce ?step (getFieldResolver field) (filterCustomDirectives inner) = Inr part"
      by (simp add: createFieldExecutionResolver_reduce getFieldResolver_astNode)
    with r have rA: "reduce ?step part (filterCustomDirectives outer) = Inr r"
      by (simp add: createFieldExecutionResolver_reduce dirs filterCustomDirectives_append reduce_append)
    have step: "failureOrSame ?P ?I (getFieldResolver installed' source args context info) s"
      if agree: "\<forall>t. \<not> isl (fst (?P t)) \<longrightarrow> other source args context info t = ?P t"
        and inst': "installResolvers resolverMap schema
                      (field\<lparr>astNode := \<lparr>directives = outer\<rparr>, resolve := Some other\<rparr>) = Inr installed'"
      for other installed'
    proof -
      let ?field' = "field\<lparr>astNode := \<lparr>directives = outer\<rparr>, resolve := Some other\<rparr>"
      from inst' obtain r' where r': "createFieldExecutionResolver ?field' resolverMap schema = Inr r'"
        and g': "getFieldResolver installed'
                   = createFieldResolver (?field'\<lparr>resolve := Some r'\<rparr>) resolverMap schema"
        by (rule installResolvers_Inr)
      from r' have rB: "reduce ?step other (filterCustomDirectives outer) = Inr r'"
        by (simp add: createFieldExecutionResolver_reduce getFieldResolver_def)
      have run': "getFieldResolver installed' source args context info
                    = (case reduce ?used r' ?customs of
                         Inl e \<Rightarrow> (\<lambda>s. (Inl e, s))
                       | Inr fieldResolver \<Rightarrow> fieldResolver source args context info)"
        by (simp add: g' createFieldResolver_node[OF nodes] getFieldResolver_update)
      have same: "failureOrSame ?P ?P (other source args context info) t" for t
        using agree unfolding failureOrSame_def by blast
      have decl: "failureOrSame ?P (r source args context info) (r' source args context info) t" for t
      proof (rule reduce_failureOrSame[OF _ rA rB])
        fix d h dargs
        assume "d \<in> set (filterCustomDirectives outer)" "resolverMap (name_value d) = Some h"
        then show "passesFailuresOn (h source dargs context info args)" by (intro nc) auto
      next
        fix t
        show "failureOrSame ?P ?P (other source args context info) t" by (rule same)
      qed
      show ?thesis
      proof (cases "reduce ?used r ?customs")
        case (Inl e)
        then have "reduce ?used r' ?customs = Inl e" by (rule reduce_fieldStep_Inl)
        with Inl show ?thesis by (simp add: run run' failureOrSame_def)
      next
        case (Inr fr)
        then obtain fr' where fr': "reduce ?used r' ?customs = Inr fr'"
          by (rule reduce_fieldStep_Inr)
        have "failureOrSame ?P (fr source args context info) (fr' source args context info) s"
        proof (rule reduce_used_failureOrSame[OF _ Inr fr'])
          fix d h dargs
          assume "d \<in> set ?customs" "resolverMap (name_value d) = Some h"
          then show "passesFailuresOn (h source dargs context info args)" by (intro nc) auto
        next
          fix t
          show "failureOrSame ?P (r source args context info) (r' source args context info) t"
            by (rule decl)
        qed
        then show ?thesis by (simp add: run run' Inr fr')
      qed
    qed
    show "(\<exists>s0. isl (fst (?P s0)) \<and> fst (?I s) = fst (?P s0) \<and> calls (snd (?I s)) = calls (snd (?P s0)))
          \<or> (\<forall>other installed'.
                (\<forall>t. \<not> isl (fst (?P t)) \<longrightarrow> other source args context info t = ?P t) \<longrightarrow>
                installResolvers resolverMap schema
                  (field\<lparr>astNode := \<lparr>directives = outer\<rparr>, resolve := Some other\<rparr>) = Inr installed' \<longrightarrow>
                getFieldResolver installed' source args context info s = ?I s)"
      using step unfolding failureOrSame_def by blast
  }
  {
    assume b: "directives node = usedInner @ usedOuter
          \<and> reduce (fieldStep resolverMap schema source args context info) r
                (filterCustomDirectives usedInner) = Inr usedPart
          \<and> (\<forall>d \<in> set (filterCustomDirectives usedOuter).
                \<forall>h dargs. resolverMap (name_value d) = Some h \<longrightarrow>
                  passesFailuresOn (h source dargs context info args))"
    let ?U = "usedPart source args context info"
    from b have dirs: "directives node = usedInner @ usedOuter"
      and part: "reduce ?used r (filterCustomDirectives usedInner) = Inr usedPart"
      by blast+
    from b have nc: "passesFailuresOn (h source dargs context info args)"
      if "d \<in> set (filterCustomDirectives usedOuter)" "resolverMap (name_value d) = Some h"
      for d h dargs
      using that by auto
    have red: "reduce ?used r ?customs = reduce ?used usedPart (filterCustomDirectives usedOuter)"
      by (simp add: dirs filterCustomDirectives_append reduce_append part)
    have step: "failureOrSame ?U ?I (fr' source args context info) s"
      if agree: "\<forall>t. \<not> isl (fst (?U t)) \<longrightarrow> other source args context info t = ?U t"
        and fr': "reduce ?used other (filterCustomDirectives usedOuter) = Inr fr'"
      for other fr'
    proof -
      from fr' obtain fr where fr: "reduce ?used usedPart (filterCustomDirectives usedOuter) = Inr fr"
        by (rule reduce_fieldStep_Inr)
      have same: "failureOrSame ?U ?U (other source args context info) t" for t
        using agree unfolding failureOrSame_def by blast
      have "failureOrSame ?U (fr source args context info) (fr' source args context info) s"
      proof (rule reduce_used_failureOrSame[OF _ fr fr'])
        fix d h dargs
        assume "d \<in> set (filterCustomDirectives usedOuter)" "resolverMap (name_value d) = Some h"
        then show "passesFailuresOn (h source dargs context info args)" by (rule nc)
      next
        fix t
        show "failureOrSame ?U ?U (other source args context info) t" by (rule same)
      qed
      then show ?thesis by (simp add: run red fr)
    qed
    show "(\<exists>s0. isl (fst (?U s0)) \<and> fst (?I s) = fst (?U s0) \<and> calls (snd (?I s)) = calls (snd (?U s0)))
          \<or> (\<forall>other fieldResolver.
                (\<forall>t. \<not> isl (fst (?U t)) \<longrightarrow> other source args context info t = ?U t) \<longrightarrow>
                reduce ?used other (filterCustomDirectives usedOuter) = Inr fieldResolver \<longrightarrow>
                fieldResolver source args context info s = ?I s)"
      using step unfolding failureOrSame_def by blast
  }
qed

theorem failure_reaches_caller_witness:
  "(\<exists>s0. isl (fst (callHandler boom person (VObj []) contextValue secretInfo s0))
       \<and> fst (getFieldResolver (projr (installResolvers readmeDirectives readmeSchema guardedField))
                person (VObj []) contextValue secretInfo readmeState)
           = fst (callHandler boom person (VObj []) contextValue secretInfo s0)
       \<and> calls (snd (getFieldResolver (projr (installResolvers readmeDirectives readmeSchema guardedField))
                        person (VObj []) contextValue secretInfo readmeState))
           = calls (snd (callHandler boom person (VObj []) contextValue secretInfo s0)))
   \<and> getFieldResolver (projr (installResolvers readmeDirectives readmeSchema guardedField))
        person (VObj []) contextValue secretInfo readmeState
      = (Inl (Thrown (VStr ''boom'')),
         readmeState\<lparr>calls := [CallDirective FIELD ''upper'' contextValue,
                                CallDirective FIELD_DEFINITION ''role'' contextValue,
                                CallDirective FIELD_DEFINITION ''whatever'' contextValue,
                                CallResolver contextValue]\<rparr>)
   \<and> (\<exists>s0. isl (fst (resolverOf (createFieldExecutionResolver guardedField demoDirectives demoSchema)
                        person (VObj []) contextValue auditInfo s0))
       \<and> fst (getFieldResolver (projr (installResolvers demoDirectives demoSchema guardedField))
                person (VObj []) contextValue auditInfo listState)
           = fst (resolverOf (createFieldExecutionResolver guardedField demoDirectives demoSchema)
                    person (VObj []) contextValue auditInfo s0)
       \<and> calls (snd (getFieldResolver (projr (installResolvers demoDirectives demoSchema guardedField))
                        person (VObj []) contextValue auditInfo listState))
           = calls (snd (resolverOf (createFieldExecutionResolver guardedField demoDirectives demoSchema)
                           person (VObj []) contextValue auditInfo s0)))
   \<and> getFieldResolver (projr (installResolvers demoDirectives demoSchema guardedField))
        person (VObj []) contextValue auditInfo listState
      = (Inl (Thrown (VStr ''Unauthorized'')),
         \<lparr>calls = [CallDirective FIELD ''audit'' contextValue,
                   CallDirective FIELD_DEFINITION ''role'' contextValue],
          heap = (\<lambda>a. VUndefined)(0 := VList [VStr ''audit''])\<rparr>)"
proof (intro conjI)
  let ?installed = "projr (installResolvers readmeDirectives readmeSchema guardedField)"
  let ?r = "resolverOf (createFieldExecutionResolver guardedField readmeDirectives readmeSchema)"
  let ?node = "\<lparr>directives = [upperNode]\<rparr>"
  let ?P = "callHandler boom person (VObj []) contextValue secretInfo"
  let ?other = "callHandler getPerson"
  let ?field' = "guardedField\<lparr>astNode := \<lparr>directives = [whateverNode, roleNode]\<rparr>,
                   resolve := Some ?other\<rparr>"
  let ?installed' = "projr (installResolvers readmeDirectives readmeSchema ?field')"
  have inst: "installResolvers readmeDirectives readmeSchema guardedField = Inr ?installed"
    by (simp add: model_defs example_defs)
  have r: "createFieldExecutionResolver guardedField readmeDirectives readmeSchema = Inr ?r"
    by (simp add: model_defs example_defs)
  have nodes: "fieldNodes secretInfo = ?node # []"
    by (simp add: secretInfo_def)
  have dirs: "directives (astNode guardedField) = [] @ [whateverNode, roleNode]"
    by (simp add: guardedField_def)
  have part: "createFieldExecutionResolver (guardedField\<lparr>astNode := \<lparr>directives = []\<rparr>\<rparr>)
                readmeDirectives readmeSchema = Inr (callHandler boom)"
    by (simp add: createFieldExecutionResolver_reduce filterCustomDirectives_def
          getFieldResolver_def guardedField_def)
  have nc: "\<forall>d \<in> set (filterCustomDirectives [whateverNode, roleNode]
                        @ filterCustomDirectives (directives ?node)).
              \<forall>h dargs. readmeDirectives (name_value d) = Some h \<longrightarrow>
                passesFailuresOn (h person dargs contextValue secretInfo (VObj []))"
    by (auto simp: filterCustomDirectives_def BUILT_IN_DIRECTIVES_def whateverNode_def roleNode_def
          upperNode_def readmeDirectives_def plainObject_def whateverDirective_def roleDirective_def
          upperDirective_def settle_def split: sum.splits val.splits)
  have agree: "\<forall>t. \<not> isl (fst (?P t)) \<longrightarrow> ?other person (VObj []) contextValue secretInfo t = ?P t"
    by (simp add: callHandler_def boom_def)
  have inst': "installResolvers readmeDirectives readmeSchema ?field' = Inr ?installed'"
    by (simp add: model_defs example_defs)
  have differ: "getFieldResolver ?installed' person (VObj []) contextValue secretInfo readmeState
                  \<noteq> getFieldResolver ?installed person (VObj []) contextValue secretInfo readmeState"
    by (simp add: model_defs example_defs)
  note t = failure_reaches_caller[OF inst r nodes, where inner = "[]"
             and outer = "[whateverNode, roleNode]" and part = "callHandler boom"
             and source = person and args = "VObj []" and s = readmeState]
  from t dirs part nc
  have "(\<exists>s0. isl (fst (?P s0))
              \<and> fst (getFieldResolver ?installed person (VObj []) contextValue secretInfo readmeState)
                  = fst (?P s0)
              \<and> calls (snd (getFieldResolver ?installed person (VObj []) contextValue secretInfo readmeState))
                  = calls (snd (?P s0)))
        \<or> (\<forall>other installed'.
              (\<forall>t. \<not> isl (fst (?P t)) \<longrightarrow> other person (VObj []) contextValue secretInfo t = ?P t) \<longrightarrow>
              installResolvers readmeDirectives readmeSchema
                (guardedField\<lparr>astNode := \<lparr>directives = [whateverNode, roleNode]\<rparr>,
                   resolve := Some other\<rparr>) = Inr installed' \<longrightarrow>
              getFieldResolver installed' person (VObj []) contextValue secretInfo readmeState
                = getFieldResolver ?installed person (VObj []) contextValue secretInfo readmeState)"
    by blast
  with agree inst' differ
  show "\<exists>s0. isl (fst (?P s0))
       \<and> fst (getFieldResolver ?installed person (VObj []) contextValue secretInfo readmeState)
           = fst (?P s0)
       \<and> calls (snd (getFieldResolver ?installed person (VObj []) contextValue secretInfo readmeState))
           = calls (snd (?P s0))"
    by blast
next
  show "getFieldResolver (projr (installResolvers readmeDirectives readmeSchema guardedField))
        person (VObj []) contextValue secretInfo readmeState
      = (Inl (Thrown (VStr ''boom'')),
         readmeState\<lparr>calls := [CallDirective FIELD ''upper'' contextValue,
                                CallDirective FIELD_DEFINITION ''role'' contextValue,
                                CallDirective FIELD_DEFINITION ''whatever'' contextValue,
                                CallResolver contextValue]\<rparr>)"
    by (simp add: model_defs example_defs)
next
  let ?installed = "projr (installResolvers demoDirectives demoSchema guardedField)"
  let ?r = "resolverOf (createFieldExecutionResolver guardedField demoDirectives demoSchema)"
  let ?node = "\<lparr>directives = [auditNode]\<rparr>"
  let ?U = "?r person (VObj []) contextValue auditInfo"
  let ?used = "fieldStep demoDirectives demoSchema person (VObj []) contextValue auditInfo"
  let ?other = "callHandler getPerson"
  let ?fr = "resolverOf (reduce ?used ?other (filterCustomDirectives [auditNode]))"
  have inst: "installResolvers demoDirectives demoSchema guardedField = Inr ?installed"
    by (simp add: model_defs example_defs)
  have r: "createFieldExecutionResolver guardedField demoDirectives demoSchema = Inr ?r"
    by (simp add: model_defs example_defs)
  have nodes: "fieldNodes auditInfo = ?node # []"
    by (simp add: auditInfo_def)
  have dirs: "directives ?node = [] @ [auditNode]"
    by simp
  have part: "reduce ?used ?r (filterCustomDirectives []) = Inr ?r"
    by (simp add: filterCustomDirectives_def)
  have nc: "\<forall>d \<in> set (filterCustomDirectives [auditNode]).
              \<forall>h dargs. demoDirectives (name_value d) = Some h \<longrightarrow>
                passesFailuresOn (h person dargs contextValue auditInfo (VObj []))"
    by (auto simp: filterCustomDirectives_def BUILT_IN_DIRECTIVES_def auditNode_def
          demoDirectives_def plainObject_def auditDirective_def settle_def split: sum.splits)
  have agree: "\<forall>t. \<not> isl (fst (?U t)) \<longrightarrow> ?other person (VObj []) contextValue auditInfo t = ?U t"
    by (simp add: model_defs example_defs)
  have fr: "reduce ?used ?other (filterCustomDirectives [auditNode]) = Inr ?fr"
    by (simp add: model_defs example_defs)
  have differ: "?fr person (VObj []) contextValue auditInfo listState
                  \<noteq> getFieldResolver ?installed person (VObj []) contextValue auditInfo listState"
    by (simp add: model_defs example_defs)
  note t = failure_reaches_caller[OF inst r nodes, where usedInner = "[]"
             and usedOuter = "[auditNode]" and usedPart = ?r
             and source = person and args = "VObj []" and s = listState]
  from t dirs part nc
  have "(\<exists>s0. isl (fst (?U s0))
              \<and> fst (getFieldResolver ?installed person (VObj []) contextValue auditInfo listState)
                  = fst (?U s0)
              \<and> calls (snd (getFieldResolver ?installed person (VObj []) contextValue auditInfo listState))
                  = calls (snd (?U s0)))
        \<or> (\<forall>other fieldResolver.
              (\<forall>t. \<not> isl (fst (?U t)) \<longrightarrow> other person (VObj []) contextValue auditInfo t = ?U t) \<longrightarrow>
              reduce ?used other (filterCustomDirectives [auditNode]) = Inr fieldResolver \<longrightarrow>
              fieldResolver person (VObj []) contextValue auditInfo listState
                = getFieldResolver ?installed person (VObj []) contextValue auditInfo listState)"
    by blast
  with agree fr differ
  show "\<exists>s0. isl (fst (?U s0))
       \<and> fst (getFieldResolver ?installed person (VObj []) contextValue auditInfo listState)
           = fst (?U s0)
       \<and> calls (snd (getFieldResolver ?installed person (VObj []) contextValue auditInfo listState))
           = calls (snd (?U s0))"
    by blast
next
  show "getFieldResolver (projr (installResolvers demoDirectives demoSchema guardedField))
        person (VObj []) contextValue auditInfo listState
      = (Inl (Thrown (VStr ''Unauthorized'')),
         \<lparr>calls = [CallDirective FIELD ''audit'' contextValue,
                   CallDirective FIELD_DEFINITION ''role'' contextValue],
          heap = (\<lambda>a. VUndefined)(0 := VList [VStr ''audit''])\<rparr>)"
    by (simp add: model_defs example_defs)
qed

section \<open>Registrations that the schema does not use\<close>

text \<open>
  C8. The code does not do what the claim says for every unused registration. An entry of
  the resolver table under a field name that its type does not have is skipped and the
  schema is left as it was. But an entry under a type name that the schema does not have, or
  that names a type without fields, makes \<open>buildSchemaWithResolvers\<close> throw a \<open>TypeError\<close>:
  \<open>schema.getType(typeName)\<close> is \<open>undefined\<close>, or has no \<open>getFields\<close>, and the loop over the type
  names has no guard like the one the loop over the field names has.
\<close>

theorem unknown_type_name_throws:
  "buildSchemaWithResolvers [(''Ghost'', [(''anything'', getPerson)])] readmeSchema None
     = Inl (TypeError ''Cannot read properties of undefined (reading 'getFields')'')
   \<and> buildSchemaWithResolvers [(''String'', [(''anything'', getPerson)])] readmeSchema None
     = Inl (TypeError ''type.getFields is not a function'')
   \<and> buildSchemaWithResolvers [(''Person'', [(''ghost'', getPerson)])] readmeSchema None
     = Inr readmeSchema"
  by (simp add: buildSchemaWithResolvers_def getFields_def getType_def readmeSchema_def)

end
